theory Spec2Isabelle
  imports Main "HOL-Library.Sublist"
begin

section \<open>The installer of the AnarQ&Q ecosystem demo\<close>

text \<open>
  This theory embeds the class \<open>AnarQQInstaller\<close> of \<open>install-anarqq-demo.py\<close>: the
  logger, the requirement probe, the repository acquirer with its archive fallback, the
  dependency installer, the environment configurator, the launcher emitter and the method
  \<open>install\<close> that sequences them.

  The installer talks to the operating system all the time. The model keeps three things
  apart:
  \<^item> the \<^emph>\<open>filesystem\<close> the installer reads and writes, a map from paths to nodes;
  \<^item> what the installer \<^emph>\<open>emits\<close>: the lines printed, the lines and the progress
    values handed to the two callbacks;
  \<^item> the \<^emph>\<open>platform\<close>: everything the Python text does not determine (what a
    subprocess returns and does to the filesystem, what a download delivers, what an
    archive holds). Every answer of the platform may depend on the history of the
    answers it gave before, and each answer is recorded in that history.

  Exceptions are values: an action returns \<open>Inl e\<close> where the Python raises \<open>e\<close>.
  Only exceptions below Python's class \<open>Exception\<close> are modelled; asynchronous
  interrupts are not. The pictographs of the log messages are left out of the string
  literals, the wording is otherwise the source's.
\<close>

subsection \<open>Paths, nodes and exceptions\<close>

type_synonym path = "string list"

datatype node = Dir | File string

type_synonym filesystem = "path \<Rightarrow> node option"

datatype error =
    CalledProcessError "string list" int
  | TimeoutExpired
  | FileNotFoundError path
  | FileExistsError path
  | NotADirectoryError path
  | IsADirectoryError path
  | OtherError string

text \<open>The content of an unpacked archive entry: a file, or a directory of named entries.\<close>

datatype tree = Leaf string | Folder "(string \<times> tree) list"

text \<open>The platform's answers, in the order they were given.\<close>

datatype effect =
    Version_probe string "error + int \<times> string"
  | Disk_usage "error + int"
  | Subprocess "string list" "path option" "error + int"
  | Urlretrieve string "(int \<times> int \<times> int) list" "error option"
  | Extractall "error option"
  | Iterdir "error + (string \<times> tree) list"

text \<open>
  \<open>version_probe\<close> answers \<open>subprocess.run([command, '--version'], timeout=10)\<close>
  with the exit code and the standard output, or with the exception raised; a version
  query is taken to leave the filesystem alone. \<open>subprocess\<close> answers a
  \<open>subprocess.run\<close> of \<open>git\<close> or \<open>npm\<close> with an exit code (or the exception of a
  failed start) and with the filesystem the command leaves behind. \<open>urlretrieve\<close>
  gives the calls made to the report hook, each a triple (block number, block size,
  total size), and the exception that ended the download, if any. \<open>iterdir\<close> lists the
  extraction directory. The temporary directory lies outside the modelled filesystem.
  The last four fields are how the interpreter prints an exception, an integer and a
  number of gigabytes.
\<close>

record platform =
  version_probe :: "effect list \<Rightarrow> string \<Rightarrow> error + int \<times> string"
  disk_free :: "effect list \<Rightarrow> error + int"
  subprocess :: "effect list \<Rightarrow> string list \<Rightarrow> path option \<Rightarrow> filesystem
                   \<Rightarrow> (error + int) \<times> filesystem"
  urlretrieve :: "effect list \<Rightarrow> string \<Rightarrow> (int \<times> int \<times> int) list \<times> error option"
  extractall :: "effect list \<Rightarrow> error option"
  iterdir :: "effect list \<Rightarrow> error + (string \<times> tree) list"
  os_name :: string
  python_version :: string
  temp_dir :: path
  str_exc :: "error \<Rightarrow> string"
  str_int :: "int \<Rightarrow> string"
  fmt_gb :: "int \<Rightarrow> string"

record state =
  fs :: filesystem
  stdout :: "string list"
  log_lines :: "string list"
  progress :: "(int \<times> string) list"
  trace :: "effect list"

text \<open>
  The attributes of an \<open>AnarQQInstaller\<close>. A callback is modelled by whether it is
  set; a set callback records its argument in \<open>log_lines\<close> or \<open>progress\<close> and
  does not raise.
\<close>

record installer =
  install_dir :: path
  demo_dir :: path
  core_dir :: path
  log_file :: path
  progress_callback :: bool
  log_callback :: bool

definition with_install_dir :: "installer \<Rightarrow> path \<Rightarrow> installer" where
  "with_install_dir self d =
     self\<lparr>install_dir := d, demo_dir := d @ [''demo''], core_dir := d @ [''core''],
          log_file := d @ [''install.log'']\<rparr>"

definition new_installer :: "path \<Rightarrow> installer" where
  "new_installer home =
     \<lparr>install_dir = home @ [''anarqq-ecosystem''],
      demo_dir = home @ [''anarqq-ecosystem'', ''demo''],
      core_dir = home @ [''anarqq-ecosystem'', ''core''],
      log_file = home @ [''anarqq-ecosystem'', ''install.log''],
      progress_callback = False, log_callback = False\<rparr>"

text \<open>Both front ends assign the four paths together, as \<open>with_install_dir\<close> does.\<close>

definition derived_paths :: "installer \<Rightarrow> bool" where
  "derived_paths self =
     (demo_dir self = install_dir self @ [''demo''] \<and>
      core_dir self = install_dir self @ [''core''] \<and>
      log_file self = install_dir self @ [''install.log''])"

subsection \<open>The configuration table\<close>

definition demo_repo :: string where
  "demo_repo = ''https://github.com/AnarQorp/anarqq-ecosystem-demo.git''"

definition core_repo :: string where
  "core_repo = ''https://github.com/AnarQorp/anarqq-ecosystem-core.git''"

definition demo_zip :: string where
  "demo_zip = ''https://github.com/AnarQorp/anarqq-ecosystem-demo/archive/refs/heads/main.zip''"

definition core_zip :: string where
  "core_zip = ''https://github.com/AnarQorp/anarqq-ecosystem-core/archive/refs/heads/main.zip''"

definition required_disk_gb :: int where
  "required_disk_gb = 5"

subsection \<open>Actions: state passing with exceptions\<close>

type_synonym 'a action = "state \<Rightarrow> (error + 'a) \<times> state"

definition ret :: "'a \<Rightarrow> 'a action" where
  "ret x s = (Inr x, s)"

definition raise :: "error \<Rightarrow> 'a action" where
  "raise e s = (Inl e, s)"

definition andthen :: "'a action \<Rightarrow> ('a \<Rightarrow> 'b action) \<Rightarrow> 'b action" where
  "andthen m f s = (case m s of (Inl e, s') \<Rightarrow> (Inl e, s') | (Inr x, s') \<Rightarrow> f x s')"

text \<open>\<open>try: m except C as e: h e\<close>, where \<open>caught\<close> tells the exceptions of class \<open>C\<close>.\<close>

definition try_except :: "'a action \<Rightarrow> (error \<Rightarrow> bool) \<Rightarrow> (error \<Rightarrow> 'a action) \<Rightarrow> 'a action" where
  "try_except m caught h s =
     (case m s of
        (Inl e, s') \<Rightarrow> if caught e then h e s' else (Inl e, s')
      | (Inr x, s') \<Rightarrow> (Inr x, s'))"

definition reads :: "(state \<Rightarrow> 'a) \<Rightarrow> 'a action" where
  "reads g s = (Inr (g s), s)"

definition fs_op :: "(filesystem \<Rightarrow> error + filesystem) \<Rightarrow> unit action" where
  "fs_op f s = (case f (fs s) of Inl e \<Rightarrow> (Inl e, s) | Inr f' \<Rightarrow> (Inr (), s\<lparr>fs := f'\<rparr>))"

fun for_each :: "('a \<Rightarrow> unit action) \<Rightarrow> 'a list \<Rightarrow> unit action" where
  "for_each f [] = ret ()"
| "for_each f (x # xs) = andthen (f x) (\<lambda>_. for_each f xs)"

definition any_exception :: "error \<Rightarrow> bool" where
  "any_exception e = True"

definition is_CalledProcessError :: "error \<Rightarrow> bool" where
  "is_CalledProcessError e = (case e of CalledProcessError cmd rc \<Rightarrow> True | _ \<Rightarrow> False)"

definition is_TimeoutExpired_or_FileNotFoundError :: "error \<Rightarrow> bool" where
  "is_TimeoutExpired_or_FileNotFoundError e =
     (case e of TimeoutExpired \<Rightarrow> True | FileNotFoundError p \<Rightarrow> True | _ \<Rightarrow> False)"

subsection \<open>Filesystem operations\<close>

text \<open>
  Each operation fails the way the Python call does on the same filesystem: a missing
  parent is a \<open>FileNotFoundError\<close>, a parent that is a file a \<open>NotADirectoryError\<close>,
  and so on. Permissions, links and quotas are not modelled.
\<close>

definition parent :: "path \<Rightarrow> path" where
  "parent p = butlast p"

definition name_of :: "path \<Rightarrow> string" where
  "name_of p = (if p = [] then [] else last p)"

definition path_str :: "path \<Rightarrow> string" where
  "path_str p = concat (map (\<lambda>c. ''/'' @ c) p)"

definition path_exists :: "filesystem \<Rightarrow> path \<Rightarrow> bool" where
  "path_exists f p = (f p \<noteq> None)"

definition in_parent :: "filesystem \<Rightarrow> path \<Rightarrow> (filesystem \<Rightarrow> error + filesystem)
    \<Rightarrow> error + filesystem" where
  "in_parent f p k =
     (case f (parent p) of
        None \<Rightarrow> Inl (FileNotFoundError p)
      | Some (File c) \<Rightarrow> Inl (NotADirectoryError p)
      | Some Dir \<Rightarrow> k f)"

text \<open>\<open>Path.mkdir(exist_ok=True)\<close>, without \<open>parents\<close>.\<close>

definition mkdir :: "path \<Rightarrow> filesystem \<Rightarrow> error + filesystem" where
  "mkdir p f =
     in_parent f p (\<lambda>f.
       case f p of
         None \<Rightarrow> Inr (f(p \<mapsto> Dir))
       | Some Dir \<Rightarrow> Inr f
       | Some (File c) \<Rightarrow> Inl (FileExistsError p))"

text \<open>\<open>Path.touch()\<close>: an existing node is kept, a missing one becomes an empty file.\<close>

definition touch :: "path \<Rightarrow> filesystem \<Rightarrow> error + filesystem" where
  "touch p f =
     in_parent f p (\<lambda>f.
       case f p of
         None \<Rightarrow> Inr (f(p \<mapsto> File []))
       | Some n \<Rightarrow> Inr f)"

text \<open>\<open>open(p, 'a')\<close> followed by one \<open>write\<close>.\<close>

definition open_append :: "path \<Rightarrow> string \<Rightarrow> filesystem \<Rightarrow> error + filesystem" where
  "open_append p text f =
     in_parent f p (\<lambda>f.
       case f p of
         None \<Rightarrow> Inr (f(p \<mapsto> File text))
       | Some (File c) \<Rightarrow> Inr (f(p \<mapsto> File (c @ text)))
       | Some Dir \<Rightarrow> Inl (IsADirectoryError p))"

text \<open>\<open>open(p, 'w')\<close> followed by the writes that make up \<open>text\<close>.\<close>

definition open_write :: "path \<Rightarrow> string \<Rightarrow> filesystem \<Rightarrow> error + filesystem" where
  "open_write p text f =
     in_parent f p (\<lambda>f.
       case f p of
         Some Dir \<Rightarrow> Inl (IsADirectoryError p)
       | _ \<Rightarrow> Inr (f(p \<mapsto> File text)))"

text \<open>\<open>Path.chmod\<close>: the mode of a node is not modelled, its existence is.\<close>

definition chmod :: "path \<Rightarrow> filesystem \<Rightarrow> error + filesystem" where
  "chmod p f = (if path_exists f p then Inr f else Inl (FileNotFoundError p))"

text \<open>\<open>shutil.copy2(src, dst)\<close>: a directory as \<open>dst\<close> receives the file under its name.\<close>

definition copy2 :: "path \<Rightarrow> path \<Rightarrow> filesystem \<Rightarrow> error + filesystem" where
  "copy2 src dst f =
     (case f src of
        None \<Rightarrow> Inl (FileNotFoundError src)
      | Some Dir \<Rightarrow> Inl (IsADirectoryError src)
      | Some (File c) \<Rightarrow>
          open_write (if f dst = Some Dir then dst @ [name_of src] else dst) c f)"

definition rmtree :: "path \<Rightarrow> filesystem \<Rightarrow> error + filesystem" where
  "rmtree p f =
     (case f p of
        None \<Rightarrow> Inl (FileNotFoundError p)
      | Some (File c) \<Rightarrow> Inl (NotADirectoryError p)
      | Some Dir \<Rightarrow> Inr (\<lambda>q. if prefix p q then None else f q))"

fun tree_at :: "tree \<Rightarrow> path \<Rightarrow> node option" where
  "tree_at (Leaf c) [] = Some (File c)"
| "tree_at (Folder es) [] = Some Dir"
| "tree_at (Leaf c) (x # xs) = None"
| "tree_at (Folder es) (x # xs) =
     (case map_of es x of None \<Rightarrow> None | Some t \<Rightarrow> tree_at t xs)"

definition graft :: "path \<Rightarrow> tree \<Rightarrow> filesystem \<Rightarrow> filesystem" where
  "graft p t f = (\<lambda>q. if prefix p q then tree_at t (drop (length p) q) else f q)"

definition is_file :: "node option \<Rightarrow> bool" where
  "is_file n = (case n of Some (File c) \<Rightarrow> True | _ \<Rightarrow> False)"

text \<open>
  \<open>shutil.move(src, dst)\<close> of an entry of the temporary directory into the modelled
  filesystem. Into an existing directory the entry goes under its own name. Onto a
  missing \<open>dst\<close> a directory is renamed or, from another device, copied with the
  missing ancestors of \<open>dst\<close> created; a file needs the parent of \<open>dst\<close> to exist.
\<close>

definition move :: "string \<times> tree \<Rightarrow> path \<Rightarrow> filesystem \<Rightarrow> error + filesystem" where
  "move src dst f =
     (case f dst of
        Some Dir \<Rightarrow>
          if path_exists f (dst @ [fst src])
          then Inl (OtherError ''Destination path already exists'')
          else Inr (graft (dst @ [fst src]) (snd src) f)
      | Some (File c) \<Rightarrow>
          (case snd src of
             Leaf c' \<Rightarrow> Inr (f(dst \<mapsto> File c'))
           | Folder es \<Rightarrow> Inl (FileExistsError dst))
      | None \<Rightarrow>
          (case snd src of
             Leaf c' \<Rightarrow> in_parent f dst (\<lambda>f. Inr (f(dst \<mapsto> File c')))
           | Folder es \<Rightarrow>
               if \<exists>q \<in> set (prefixes dst). is_file (f q)
               then Inl (NotADirectoryError dst)
               else Inr (graft dst (snd src)
                          (\<lambda>q. if strict_prefix q dst \<and> f q = None then Some Dir else f q))))"

subsection \<open>Logging and progress\<close>

text \<open>
  \<open>log\<close> prints the entry, appends it to the log file when the parent of the log file
  exists, and then calls the log callback. The \<open>open\<close> of the log file is the one
  place where \<open>log\<close> can raise.
\<close>

definition log :: "installer \<Rightarrow> string \<Rightarrow> string \<Rightarrow> unit action" where
  "log self message level s =
     (let log_entry = ''['' @ level @ ''] '' @ message;
          s1 = s\<lparr>stdout := stdout s @ [log_entry]\<rparr>
      in case (if path_exists (fs s1) (parent (log_file self))
               then open_append (log_file self) (log_entry @ [CHR 0x0A]) (fs s1)
               else Inr (fs s1)) of
           Inl e \<Rightarrow> (Inl e, s1)
         | Inr f \<Rightarrow>
             (Inr (), s1\<lparr>fs := f,
                         log_lines := (if log_callback self then log_lines s1 @ [log_entry]
                                       else log_lines s1)\<rparr>))"

definition update_progress :: "installer \<Rightarrow> int \<Rightarrow> string \<Rightarrow> unit action" where
  "update_progress self v message s =
     (Inr (), if progress_callback self then s\<lparr>progress := progress s @ [(v, message)]\<rparr> else s)"

subsection \<open>Calls to the platform\<close>

definition run_version :: "platform \<Rightarrow> string \<Rightarrow> (int \<times> string) action" where
  "run_version w command s =
     (let r = version_probe w (trace s) command
      in (r, s\<lparr>trace := trace s @ [Version_probe command r]\<rparr>))"

text \<open>\<open>subprocess.run(args, cwd=cwd, check=True)\<close>: a non-zero exit raises.\<close>

definition run_checked :: "platform \<Rightarrow> string list \<Rightarrow> path option \<Rightarrow> unit action" where
  "run_checked w args cwd s =
     (let (r, f) = subprocess w (trace s) args cwd (fs s);
          s1 = s\<lparr>fs := f, trace := trace s @ [Subprocess args cwd r]\<rparr>
      in case r of
           Inl e \<Rightarrow> (Inl e, s1)
         | Inr returncode \<Rightarrow>
             if returncode = 0 then (Inr (), s1)
             else (Inl (CalledProcessError args returncode), s1))"

definition disk_usage_free :: "platform \<Rightarrow> int action" where
  "disk_usage_free w s =
     (let r = disk_free w (trace s) in (r, s\<lparr>trace := trace s @ [Disk_usage r]\<rparr>))"

definition url_retrieve :: "platform \<Rightarrow> string \<Rightarrow> (int \<times> int \<times> int \<Rightarrow> unit action)
    \<Rightarrow> unit action" where
  "url_retrieve w url reporthook s =
     (let (calls, failure) = urlretrieve w (trace s) url;
          s1 = s\<lparr>trace := trace s @ [Urlretrieve url calls failure]\<rparr>
      in andthen (for_each reporthook calls)
           (\<lambda>_. case failure of None \<Rightarrow> ret () | Some e \<Rightarrow> raise e) s1)"

definition zip_extractall :: "platform \<Rightarrow> unit action" where
  "zip_extractall w s =
     (let r = extractall w (trace s);
          s1 = s\<lparr>trace := trace s @ [Extractall r]\<rparr>
      in case r of None \<Rightarrow> (Inr (), s1) | Some e \<Rightarrow> (Inl e, s1))"

definition list_iterdir :: "platform \<Rightarrow> (string \<times> tree) list action" where
  "list_iterdir w s =
     (let r = iterdir w (trace s) in (r, s\<lparr>trace := trace s @ [Iterdir r]\<rparr>))"

subsection \<open>The environment prober\<close>

text \<open>
  \<open>str.strip()\<close> removes the characters for which \<open>str.isspace()\<close> holds. A character
  of the model is a code point below 256; of these the white space is 0x09 to 0x0D,
  0x1C to 0x1F, 0x20, 0x85 and 0xA0. The white space beyond (such as U+2028 or U+3000)
  has no character in the model.
\<close>

definition is_space :: "char \<Rightarrow> bool" where
  "is_space c = (c \<in> set [CHR 0x20, CHR 0x09, CHR 0x0A, CHR 0x0B, CHR 0x0C, CHR 0x0D,
                          CHR 0x1C, CHR 0x1D, CHR 0x1E, CHR 0x1F, CHR 0x85, CHR 0xA0])"

definition strip :: "string \<Rightarrow> string" where
  "strip s = rev (dropWhile is_space (rev (dropWhile is_space s)))"

definition check_command :: "platform \<Rightarrow> string \<Rightarrow> (bool \<times> string) action" where
  "check_command w command =
     try_except
       (andthen (run_version w command) (\<lambda>(returncode, out).
        ret (returncode = 0, strip out)))
       is_TimeoutExpired_or_FileNotFoundError
       (\<lambda>e. ret (False, []))"

text \<open>
  \<open>available_gb = free / 1024 ** 3\<close> is a correctly rounded float division by a power
  of two, so \<open>available_gb >= 5\<close> holds exactly when \<open>free\<close> is at least
  \<open>5 * 1024 ** 3\<close>; the comparison is made on the integers.
\<close>

definition enough_disk :: "int \<Rightarrow> bool" where
  "enough_disk free = (required_disk_gb * 1024 ^ 3 \<le> free)"

definition check_system_requirements :: "platform \<Rightarrow> installer \<Rightarrow> bool action" where
  "check_system_requirements w self =
     andthen (log self ''Checking system requirements...'' ''INFO'') (\<lambda>_.
     andthen (log self (''Python version: '' @ python_version w) ''INFO'') (\<lambda>_.
     andthen (check_command w ''node'') (\<lambda>(node_available, node_version).
     andthen (if node_available
              then andthen (log self (''Node.js found: '' @ node_version) ''INFO'')
                     (\<lambda>_. ret (0::nat))
              else andthen (log self ''Node.js not found'' ''ERROR'')
                     (\<lambda>_. ret 1)) (\<lambda>errors.
     andthen (check_command w ''npm'') (\<lambda>(npm_available, npm_version).
     andthen (if npm_available
              then andthen (log self (''npm found: '' @ npm_version) ''INFO'')
                     (\<lambda>_. ret errors)
              else andthen (log self ''npm not found'' ''ERROR'')
                     (\<lambda>_. ret (errors + 1))) (\<lambda>errors.
     andthen (check_command w ''git'') (\<lambda>(git_available, git_version).
     andthen (if git_available
              then log self (''Git found: '' @ git_version) ''INFO''
              else log self ''Git not found (will use ZIP download)'' ''WARNING'') (\<lambda>_.
     andthen (check_command w ''docker'') (\<lambda>(docker_available, docker_version).
     andthen (if docker_available
              then log self (''Docker found: '' @ docker_version) ''INFO''
              else log self ''Docker not found (optional)'' ''INFO'') (\<lambda>_.
     andthen (try_except
                (andthen (disk_usage_free w) (\<lambda>free.
                   if enough_disk free
                   then andthen (log self (''Disk space: '' @ fmt_gb w free @ ''GB available'')
                                   ''INFO'')
                          (\<lambda>_. ret errors)
                   else andthen (log self (''Insufficient disk space: '' @ fmt_gb w free
                                     @ ''GB (required: '' @ str_int w required_disk_gb @ ''GB)'')
                                   ''ERROR'')
                          (\<lambda>_. ret (errors + 1))))
                any_exception
                (\<lambda>e. andthen (log self (''Could not check disk space: '' @ str_exc w e)
                                ''WARNING'')
                       (\<lambda>_. ret errors))) (\<lambda>errors.
     ret (errors = 0))))))))))))"

subsection \<open>Directory setup\<close>

definition setup_directories :: "installer \<Rightarrow> unit action" where
  "setup_directories self =
     andthen (log self ''Setting up directories...'' ''INFO'') (\<lambda>_.
     andthen (fs_op (mkdir (install_dir self))) (\<lambda>_.
     andthen (fs_op (mkdir (demo_dir self))) (\<lambda>_.
     andthen (fs_op (mkdir (core_dir self))) (\<lambda>_.
     andthen (fs_op (touch (log_file self))) (\<lambda>_.
     log self (''Directories created at: '' @ path_str (install_dir self)) ''INFO'')))))"

subsection \<open>The artifact acquirer\<close>

definition progress_hook :: "platform \<Rightarrow> installer \<Rightarrow> string \<Rightarrow> int \<times> int \<times> int
    \<Rightarrow> unit action" where
  "progress_hook w self description = (\<lambda>(block_num, block_size, total_size).
     if total_size > 0
     then (let percent = min 100 ((block_num * block_size * 100) div total_size)
           in update_progress self percent
                (''Downloading '' @ description @ ''... '' @ str_int w percent @ ''%''))
     else ret ())"

definition download_file :: "platform \<Rightarrow> installer \<Rightarrow> string \<Rightarrow> path \<Rightarrow> string
    \<Rightarrow> unit action" where
  "download_file w self url destination description =
     andthen (log self (''Downloading '' @ (if description = [] then url else description)
                @ ''...'') ''INFO'') (\<lambda>_.
     andthen (url_retrieve w url (progress_hook w self description)) (\<lambda>_.
     log self (''Downloaded: '' @ path_str destination) ''INFO''))"

definition extract_zip :: "platform \<Rightarrow> installer \<Rightarrow> path \<Rightarrow> path \<Rightarrow> string \<Rightarrow> unit action" where
  "extract_zip w self zip_path extract_to description =
     andthen (log self (''Extracting '' @ (if description = [] then name_of zip_path
                else description) @ ''...'') ''INFO'') (\<lambda>_.
     andthen (zip_extractall w) (\<lambda>_.
     log self (''Extracted to: '' @ path_str extract_to) ''INFO''))"

text \<open>
  The body of \<open>clone_or_download_repo\<close> below its \<open>if git_available\<close>: the archive
  fallback inside the temporary directory.
\<close>

definition zip_fallback :: "platform \<Rightarrow> installer \<Rightarrow> string \<Rightarrow> path \<Rightarrow> string
    \<Rightarrow> unit action" where
  "zip_fallback w self zip_url destination name =
     andthen (log self (''Downloading '' @ name @ '' as ZIP...'') ''INFO'') (\<lambda>_.
     andthen (download_file w self zip_url (temp_dir w @ [name @ ''.zip''])
                (name @ '' repository'')) (\<lambda>_.
     andthen (extract_zip w self (temp_dir w @ [name @ ''.zip''])
                (temp_dir w @ [''extracted'']) (name @ '' repository'')) (\<lambda>_.
     andthen (list_iterdir w) (\<lambda>extracted_dirs.
     case extracted_dirs of
       [] \<Rightarrow> ret ()
     | source_dir # rest \<Rightarrow>
         andthen (reads (\<lambda>s. path_exists (fs s) destination)) (\<lambda>present.
         andthen (if present then fs_op (rmtree destination) else ret ()) (\<lambda>_.
         andthen (fs_op (move source_dir destination)) (\<lambda>_.
         log self (''Downloaded and extracted '' @ name) ''INFO'')))))))"

text \<open>
  The \<open>try\<close> statement of \<open>clone_or_download_repo\<close>. Its body returns from the
  function when the version-control command succeeds; the Boolean result says whether
  it did, so \<open>False\<close> means that the archive fallback is still to run.
\<close>

definition vcs_attempt :: "platform \<Rightarrow> installer \<Rightarrow> string \<Rightarrow> path \<Rightarrow> string \<Rightarrow> bool action" where
  "vcs_attempt w self repo_url destination name =
     try_except
       (andthen (log self (''Cloning '' @ name @ '' repository...'') ''INFO'') (\<lambda>_.
        andthen (reads (\<lambda>s. path_exists (fs s) destination \<and>
                            path_exists (fs s) (destination @ [''.git'']))) (\<lambda>working_copy.
        andthen (if working_copy
                 then andthen (run_checked w [''git'', ''pull'', ''origin'', ''main'']
                                 (Some destination)) (\<lambda>_.
                      log self (''Updated '' @ name @ '' repository'') ''INFO'')
                 else andthen (run_checked w [''git'', ''clone'', repo_url,
                                 path_str destination] None) (\<lambda>_.
                      log self (''Cloned '' @ name @ '' repository'') ''INFO'')) (\<lambda>_.
        ret True))))
       is_CalledProcessError
       (\<lambda>e. andthen (log self (''Git clone failed: '' @ str_exc w e) ''WARNING'')
              (\<lambda>_. ret False))"

definition clone_or_download_repo :: "platform \<Rightarrow> installer \<Rightarrow> string \<Rightarrow> string \<Rightarrow> path
    \<Rightarrow> string \<Rightarrow> unit action" where
  "clone_or_download_repo w self repo_url zip_url destination name =
     andthen (check_command w ''git'') (\<lambda>(git_available, git_version).
     andthen (if git_available
              then vcs_attempt w self repo_url destination name
              else ret False) (\<lambda>returned.
     if returned then ret () else zip_fallback w self zip_url destination name))"

subsection \<open>The dependency installer\<close>

definition install_dependencies :: "platform \<Rightarrow> installer \<Rightarrow> path \<Rightarrow> string \<Rightarrow> unit action" where
  "install_dependencies w self directory name =
     andthen (log self (''Installing '' @ name @ '' dependencies...'') ''INFO'') (\<lambda>_.
     try_except
       (andthen (run_checked w [''npm'', ''install''] (Some directory)) (\<lambda>_.
        andthen (log self (name @ '' dependencies installed'') ''INFO'') (\<lambda>_.
        try_except
          (andthen (run_checked w [''npm'', ''run'', ''build''] (Some directory)) (\<lambda>_.
           log self (name @ '' built successfully'') ''INFO''))
          is_CalledProcessError
          (\<lambda>e. log self (name @ '' build failed (not critical)'') ''WARNING''))))
       is_CalledProcessError
       (\<lambda>e. andthen (log self (''Failed to install '' @ name @ '' dependencies: '' @ str_exc w e)
                       ''ERROR'')
              (\<lambda>_. raise e)))"

subsection \<open>The environment configurator\<close>

definition setup_environment :: "installer \<Rightarrow> unit action" where
  "setup_environment self =
     andthen (log self ''Setting up environment...'' ''INFO'') (\<lambda>_.
     andthen (reads (\<lambda>s. path_exists (fs s) (demo_dir self @ [''.env.example'']) \<and>
                         \<not> path_exists (fs s) (demo_dir self @ [''.env'']))) (\<lambda>copy.
     if copy
     then andthen (fs_op (copy2 (demo_dir self @ [''.env.example'']) (demo_dir self @ [''.env'']))) (\<lambda>_.
          log self ''Environment file created'' ''INFO'')
     else ret ()))"

subsection \<open>The launcher emitter\<close>

definition start_bat :: "installer \<Rightarrow> string" where
  "start_bat self =
     ''@echo off'' @ [CHR 0x0A] @ ''echo Starting AnarQ&Q Demo...'' @ [CHR 0x0A] @
     ''cd /d \"'' @ path_str (demo_dir self) @ ''\"'' @ [CHR 0x0A] @
     ''npm run dev'' @ [CHR 0x0A] @ ''pause'' @ [CHR 0x0A]"

definition stop_bat :: "installer \<Rightarrow> string" where
  "stop_bat self =
     ''@echo off'' @ [CHR 0x0A] @ ''echo Stopping AnarQ&Q services...'' @ [CHR 0x0A] @
     ''cd /d \"'' @ path_str (demo_dir self) @ ''\"'' @ [CHR 0x0A] @
     ''if exist \"docker-compose.yml\" docker-compose down'' @ [CHR 0x0A] @
     ''echo Services stopped'' @ [CHR 0x0A] @ ''pause'' @ [CHR 0x0A]"

definition start_sh :: "installer \<Rightarrow> string" where
  "start_sh self =
     ''#!/bin/bash'' @ [CHR 0x0A] @ ''echo \"Starting AnarQ&Q Demo...\"'' @ [CHR 0x0A] @
     ''cd \"'' @ path_str (demo_dir self) @ ''\"'' @ [CHR 0x0A] @
     ''npm run dev'' @ [CHR 0x0A]"

definition stop_sh :: "installer \<Rightarrow> string" where
  "stop_sh self =
     ''#!/bin/bash'' @ [CHR 0x0A] @ ''echo \"Stopping AnarQ&Q services...\"'' @ [CHR 0x0A] @
     ''cd \"'' @ path_str (demo_dir self) @ ''\"'' @ [CHR 0x0A] @
     ''if [ -f \"docker-compose.yml\" ]; then'' @ [CHR 0x0A] @
     ''    docker-compose down'' @ [CHR 0x0A] @ ''fi'' @ [CHR 0x0A] @
     ''echo \"Services stopped\"'' @ [CHR 0x0A]"

definition create_launchers :: "platform \<Rightarrow> installer \<Rightarrow> unit action" where
  "create_launchers w self =
     andthen (log self ''Creating launcher scripts...'' ''INFO'') (\<lambda>_.
     andthen (if os_name w = ''nt''
              then andthen (fs_op (open_write (install_dir self @ [''start-demo.bat''])
                                     (start_bat self))) (\<lambda>_.
                   fs_op (open_write (install_dir self @ [''stop-services.bat'']) (stop_bat self)))
              else andthen (fs_op (open_write (install_dir self @ [''start-demo.sh''])
                                     (start_sh self))) (\<lambda>_.
                   andthen (fs_op (chmod (install_dir self @ [''start-demo.sh'']))) (\<lambda>_.
                   andthen (fs_op (open_write (install_dir self @ [''stop-services.sh''])
                                     (stop_sh self))) (\<lambda>_.
                   fs_op (chmod (install_dir self @ [''stop-services.sh'']))))))
       (\<lambda>_.
     log self ''Launcher scripts created'' ''INFO''))"

subsection \<open>The orchestrator\<close>

text \<open>The body of the \<open>try\<close> of \<open>install\<close>.\<close>

definition install_steps :: "platform \<Rightarrow> installer \<Rightarrow> bool \<Rightarrow> bool action" where
  "install_steps w self install_core =
     andthen (update_progress self 0 ''Starting installation...'') (\<lambda>_.
     andthen (check_system_requirements w self) (\<lambda>met.
     if \<not> met
     then andthen (log self ''System requirements not met'' ''ERROR'') (\<lambda>_. ret False)
     else
       andthen (update_progress self 10 ''System requirements checked'') (\<lambda>_.
       andthen (setup_directories self) (\<lambda>_.
       andthen (update_progress self 20 ''Directories created'') (\<lambda>_.
       andthen (clone_or_download_repo w self demo_repo demo_zip (demo_dir self) ''Demo'') (\<lambda>_.
       andthen (update_progress self 40 ''Demo repository downloaded'') (\<lambda>_.
       andthen (if install_core
                then andthen (clone_or_download_repo w self core_repo core_zip (core_dir self)
                                ''Core'') (\<lambda>_.
                     update_progress self 60 ''Core repository downloaded'')
                else update_progress self 60 ''Skipping core repository'') (\<lambda>_.
       andthen (install_dependencies w self (demo_dir self) ''Demo'') (\<lambda>_.
       andthen (update_progress self 80 ''Dependencies installed'') (\<lambda>_.
       andthen (setup_environment self) (\<lambda>_.
       andthen (update_progress self 90 ''Environment configured'') (\<lambda>_.
       andthen (create_launchers w self) (\<lambda>_.
       andthen (update_progress self 100 ''Installation completed'') (\<lambda>_.
       andthen (log self ''Installation completed successfully!'' ''INFO'') (\<lambda>_.
       ret True)))))))))))))))"

definition install :: "platform \<Rightarrow> installer \<Rightarrow> bool \<Rightarrow> bool action" where
  "install w self install_core =
     try_except (install_steps w self install_core) any_exception
       (\<lambda>e. andthen (log self (''Installation failed: '' @ str_exc w e) ''ERROR'')
              (\<lambda>_. ret False))"

section \<open>Vocabulary of the properties\<close>

subsection \<open>Log entries and the log file\<close>

definition entry :: "string \<Rightarrow> string \<Rightarrow> string" where
  "entry level message = ''['' @ level @ ''] '' @ message"

text \<open>
  \<open>log_ok\<close> is the exact condition under which \<open>log\<close> returns: the parent of the
  log file is missing (nothing is written), or it is a directory and the log file is not
  one. \<open>log_writable\<close> is the part of it that the installer's own steps keep: the
  parent is not a regular file and the log file is not a directory.
\<close>

definition log_ok :: "installer \<Rightarrow> filesystem \<Rightarrow> bool" where
  "log_ok self f =
     (case f (parent (log_file self)) of
        None \<Rightarrow> True
      | Some Dir \<Rightarrow> f (log_file self) \<noteq> Some Dir
      | Some (File c) \<Rightarrow> False)"

definition log_writable :: "installer \<Rightarrow> filesystem \<Rightarrow> bool" where
  "log_writable self f =
     (f (log_file self) \<noteq> Some Dir \<and> \<not> is_file (f (parent (log_file self))))"

text \<open>A platform whose \<open>git\<close> and \<open>npm\<close> commands leave the log file writable.\<close>

definition quiet :: "platform \<Rightarrow> installer \<Rightarrow> bool" where
  "quiet w self =
     (\<forall>t args cwd f. log_writable self f \<longrightarrow> log_writable self (snd (subprocess w t args cwd f)))"

subsection \<open>Progress events\<close>

text \<open>The eight calls of \<open>update_progress\<close> in the text of \<open>install\<close>, in order.\<close>

definition checkpoints :: "bool \<Rightarrow> (int \<times> string) list" where
  "checkpoints install_core =
     [(0, ''Starting installation...''), (10, ''System requirements checked''),
      (20, ''Directories created''), (40, ''Demo repository downloaded''),
      (60, if install_core then ''Core repository downloaded'' else ''Skipping core repository''),
      (80, ''Dependencies installed''), (90, ''Environment configured''),
      (100, ''Installation completed'')]"

text \<open>The events that the report hook of \<open>download_file\<close> emits.\<close>

definition download_report :: "int \<times> string \<Rightarrow> bool" where
  "download_report e = prefix ''Downloading '' (snd e)"

subsection \<open>The requirement tally\<close>

text \<open>
  A tool is available when its version query exits with code 0. \<open>error_tally\<close> is the
  tally of the specification, computed from the platform's answers in the order the
  prober asks: one error for a missing \<open>node\<close>, one for a missing \<open>npm\<close>, one for
  a free disk space below the minimum; nothing for \<open>git\<close>, \<open>docker\<close> or a disk
  query that fails.
\<close>

definition tool_available :: "error + int \<times> string \<Rightarrow> bool" where
  "tool_available r = (case r of Inr (returncode, out) \<Rightarrow> returncode = 0 | Inl e \<Rightarrow> False)"

definition error_tally :: "platform \<Rightarrow> effect list \<Rightarrow> nat" where
  "error_tally w t =
     (let node = version_probe w t ''node'';
          t1 = t @ [Version_probe ''node'' node];
          npm = version_probe w t1 ''npm'';
          t2 = t1 @ [Version_probe ''npm'' npm];
          t3 = t2 @ [Version_probe ''git'' (version_probe w t2 ''git'')];
          t4 = t3 @ [Version_probe ''docker'' (version_probe w t3 ''docker'')]
      in (if tool_available node then 0 else 1) + (if tool_available npm then 0 else 1) +
         (case disk_free w t4 of Inr free \<Rightarrow> if enough_disk free then 0 else 1 | Inl e \<Rightarrow> 0))"

subsection \<open>What a run did\<close>

text \<open>The read-only questions of the prober.\<close>

definition is_query :: "effect \<Rightarrow> bool" where
  "is_query e = (case e of Version_probe c r \<Rightarrow> True | Disk_usage r \<Rightarrow> True | _ \<Rightarrow> False)"

text \<open>
  \<open>log_only self s0 s\<close>: since \<open>s0\<close> at most the log file changed, no directory
  appeared or vanished, and nothing changed at all if the parent of the log file was
  missing.
\<close>

definition log_only :: "installer \<Rightarrow> state \<Rightarrow> state \<Rightarrow> bool" where
  "log_only self s0 s =
     ((\<forall>p. p \<noteq> log_file self \<longrightarrow> fs s p = fs s0 p) \<and>
      (\<forall>p. (fs s p = Some Dir) = (fs s0 p = Some Dir)) \<and>
      (fs s0 (parent (log_file self)) = None \<longrightarrow> fs s = fs s0))"

text \<open>The state in which \<open>install\<close> calls the requirement check.\<close>

definition starting :: "installer \<Rightarrow> state \<Rightarrow> state" where
  "starting self s = snd (update_progress self 0 ''Starting installation...'' s)"

text \<open>A platform whose \<open>git\<close> and \<open>npm\<close> commands do not remove the core directory.\<close>

definition keeps_core :: "platform \<Rightarrow> installer \<Rightarrow> bool" where
  "keeps_core w self =
     (\<forall>t args cwd f. f (core_dir self) = Some Dir
        \<longrightarrow> snd (subprocess w t args cwd f) (core_dir self) = Some Dir)"

text \<open>
  A platform on which the first entry that an unpacked archive lists is never a plain
  file. The archive fallback moves that entry onto the destination.
\<close>

definition unpacks_directory :: "platform \<Rightarrow> bool" where
  "unpacks_directory w =
     (\<forall>t. case iterdir w t of Inr ((entry_name, Leaf c) # rest) \<Rightarrow> False | _ \<Rightarrow> True)"

text \<open>
  The events that fetch the core repository: a download of its archive, a \<open>git clone\<close>
  of it into the core directory, a \<open>git pull\<close> inside the core directory.
  \<open>core_fetched self s0 s\<close>: one of them happened since \<open>s0\<close>.
\<close>

definition fetches_core :: "installer \<Rightarrow> effect \<Rightarrow> bool" where
  "fetches_core self e =
     (case e of
        Urlretrieve url calls failure \<Rightarrow> url = core_zip
      | Subprocess args cwd r \<Rightarrow>
          args = [''git'', ''clone'', core_repo, path_str (core_dir self)] \<or>
          (args = [''git'', ''pull'', ''origin'', ''main''] \<and> cwd = Some (core_dir self))
      | _ \<Rightarrow> False)"

definition core_fetched :: "installer \<Rightarrow> state \<Rightarrow> state \<Rightarrow> bool" where
  "core_fetched self s0 s = (\<exists>ev. trace s = trace s0 @ ev \<and> (\<exists>e \<in> set ev. fetches_core self e))"

abbreviation writable :: "installer \<Rightarrow> state \<Rightarrow> bool" where
  "writable self s \<equiv> log_writable self (fs s)"

abbreviation has_core :: "installer \<Rightarrow> state \<Rightarrow> bool" where
  "has_core self s \<equiv> fs s (core_dir self) = Some Dir"

subsection \<open>Reasoning about actions\<close>

text \<open>
  \<open>inv I m\<close>: the action \<open>m\<close> keeps \<open>I\<close>, whether it returns or raises.
  \<open>hoare P m Q E\<close>: from a state in \<open>P\<close>, \<open>m\<close> returns \<open>x\<close> in a state in \<open>Q x\<close> or
  raises \<open>e\<close> in a state in \<open>E e\<close>.
\<close>

definition inv :: "(state \<Rightarrow> bool) \<Rightarrow> 'a action \<Rightarrow> bool" where
  "inv I m = (\<forall>s. I s \<longrightarrow> I (snd (m s)))"

definition hoare :: "(state \<Rightarrow> bool) \<Rightarrow> 'a action \<Rightarrow> ('a \<Rightarrow> state \<Rightarrow> bool)
    \<Rightarrow> (error \<Rightarrow> state \<Rightarrow> bool) \<Rightarrow> bool" where
  "hoare P m Q E =
     (\<forall>s r s'. P s \<longrightarrow> m s = (r, s') \<longrightarrow> (case r of Inl e \<Rightarrow> E e s' | Inr x \<Rightarrow> Q x s'))"

definition download_event :: "int \<times> string \<Rightarrow> bool" where
  "download_event e = (prefix ''Downloading '' (snd e) \<and> fst e \<le> 100)"

definition progress_ext :: "state \<Rightarrow> state \<Rightarrow> bool" where
  "progress_ext s0 s = (\<exists>pv. progress s = progress s0 @ pv \<and> list_all download_event pv)"

definition trace_ext :: "(effect \<Rightarrow> bool) \<Rightarrow> state \<Rightarrow> state \<Rightarrow> bool" where
  "trace_ext T s0 s = (\<exists>ev. trace s = trace s0 @ ev \<and> list_all T ev)"

definition fs_frame :: "path set \<Rightarrow> state \<Rightarrow> state \<Rightarrow> bool" where
  "fs_frame S s0 s = (\<forall>p. p \<notin> S \<longrightarrow> fs s p = fs s0 p)"

text \<open>
  \<open>stage self cs s0 s\<close>: since \<open>s0\<close> the progress callback has received the
  checkpoints \<open>cs\<close>, and between them only download reports of at most 100.
\<close>

definition stage :: "installer \<Rightarrow> (int \<times> string) list \<Rightarrow> state \<Rightarrow> state \<Rightarrow> bool" where
  "stage self cs s0 s =
     (\<exists>pv. progress s = progress s0 @ pv \<and>
           list_all (\<lambda>e. fst e \<le> 100) (filter download_report pv) \<and>
           filter (\<lambda>e. \<not> download_report e) pv = (if progress_callback self then cs else []))"

definition some_stage :: "installer \<Rightarrow> bool \<Rightarrow> state \<Rightarrow> state \<Rightarrow> bool" where
  "some_stage self c s0 s = (\<exists>cs. prefix cs (checkpoints c) \<and> stage self cs s0 s)"

definition completed :: "installer \<Rightarrow> state \<Rightarrow> bool" where
  "completed self s =
     (progress_callback self \<longrightarrow>
        progress s \<noteq> [] \<and> last (progress s) = (100, ''Installation completed''))"

subsection \<open>Commands and failures in the trace\<close>

text \<open>
  The two version-control commands of \<open>clone_or_download_repo\<close> as they appear in the
  trace, and the test of the source that chooses between them: the destination exists
  and holds a \<open>.git\<close> entry.
\<close>

definition is_subprocess :: "effect \<Rightarrow> bool" where
  "is_subprocess e = (case e of Subprocess args cwd r \<Rightarrow> True | _ \<Rightarrow> False)"

definition git_pull :: "path \<Rightarrow> error + int \<Rightarrow> effect" where
  "git_pull destination r = Subprocess [''git'', ''pull'', ''origin'', ''main''] (Some destination) r"

definition git_clone :: "string \<Rightarrow> path \<Rightarrow> error + int \<Rightarrow> effect" where
  "git_clone repo_url destination r =
     Subprocess [''git'', ''clone'', repo_url, path_str destination] None r"

definition working_copy :: "filesystem \<Rightarrow> path \<Rightarrow> bool" where
  "working_copy f destination =
     (path_exists f destination \<and> path_exists f (destination @ [''.git'']))"

definition vcs_command :: "filesystem \<Rightarrow> string \<Rightarrow> path \<Rightarrow> error + int \<Rightarrow> effect" where
  "vcs_command f repo_url destination r =
     (if working_copy f destination then git_pull destination r
      else git_clone repo_url destination r)"

text \<open>\<open>retrieved url t s\<close>: since the trace \<open>t\<close> the archive at \<open>url\<close> was asked for.\<close>

definition retrieved :: "string \<Rightarrow> effect list \<Rightarrow> state \<Rightarrow> bool" where
  "retrieved url t s =
     (\<exists>ev calls failure. trace s = t @ ev \<and> Urlretrieve url calls failure \<in> set ev)"

text \<open>
  The two outcomes of a call of \<open>log\<close>: the state after a record that was written, and
  the state and exception after one that could only be printed.
\<close>

definition printed :: "string \<Rightarrow> string \<Rightarrow> state \<Rightarrow> state" where
  "printed level message s = s\<lparr>stdout := stdout s @ [entry level message]\<rparr>"

definition log_failure :: "installer \<Rightarrow> filesystem \<Rightarrow> error" where
  "log_failure self f =
     (case open_append (log_file self) [] f of Inl e \<Rightarrow> e | Inr f' \<Rightarrow> OtherError [])"

definition logged :: "installer \<Rightarrow> string \<Rightarrow> string \<Rightarrow> state \<Rightarrow> state" where
  "logged self level message s = snd (log self message level s)"

text \<open>The answer of the platform to a command, and the state after it.\<close>

definition answer :: "platform \<Rightarrow> string list \<Rightarrow> path option \<Rightarrow> state \<Rightarrow> error + int" where
  "answer w args cwd s = fst (subprocess w (trace s) args cwd (fs s))"

definition after_command :: "platform \<Rightarrow> string list \<Rightarrow> path option \<Rightarrow> state \<Rightarrow> state" where
  "after_command w args cwd s =
     s\<lparr>fs := snd (subprocess w (trace s) args cwd (fs s)),
       trace := trace s @ [Subprocess args cwd (answer w args cwd s)]\<rparr>"

definition after_retrieve :: "platform \<Rightarrow> string \<Rightarrow> state \<Rightarrow> effect" where
  "after_retrieve w url s =
     Urlretrieve url (fst (urlretrieve w (trace s) url)) (snd (urlretrieve w (trace s) url))"

text \<open>
  \<open>vcs_result\<close>: what the try statement around the version-control command returns for
  each answer of the platform. A non-zero exit is \<open>CalledProcessError\<close>, which the
  handler turns into a warning; any other exception is not caught there.
\<close>

definition vcs_result :: "platform \<Rightarrow> string list \<Rightarrow> error + int \<Rightarrow> error + bool \<Rightarrow> state \<Rightarrow> bool" where
  "vcs_result w args res r s' =
     (case res of
        Inr rc \<Rightarrow>
          if rc = 0 then r = Inr True
          else r = Inr False \<and>
               entry ''WARNING'' (''Git clone failed: '' @ str_exc w (CalledProcessError args rc))
                 \<in> set (stdout s')
      | Inl e \<Rightarrow> if is_CalledProcessError e then r = Inr False else r = Inl e)"

text \<open>
  The failures of a run as events of the trace: a download or an extraction that raised
  \<open>e\<close>, and a command that exited non-zero. \<open>fatal\<close> collects those that no handler
  below \<open>install\<close> catches.
\<close>

definition fatal_with :: "error \<Rightarrow> effect \<Rightarrow> bool" where
  "fatal_with e x =
     (case x of
        Urlretrieve url calls failure \<Rightarrow> failure = Some e
      | Extractall failure \<Rightarrow> failure = Some e
      | _ \<Rightarrow> False)"

definition failed_exit :: "string list \<Rightarrow> effect \<Rightarrow> bool" where
  "failed_exit args x =
     (case x of
        Subprocess a cwd res \<Rightarrow> a = args \<and> (case res of Inr rc \<Rightarrow> rc \<noteq> 0 | Inl e \<Rightarrow> False)
      | _ \<Rightarrow> False)"

definition fatal :: "effect \<Rightarrow> bool" where
  "fatal x = ((\<exists>e. fatal_with e x) \<or> failed_exit [''npm'', ''install''] x)"

text \<open>The events that the acquisition step and the dependency step may add to the trace.\<close>

definition is_acquire :: "effect \<Rightarrow> bool" where
  "is_acquire e =
     (case e of
        Version_probe c r \<Rightarrow> c = ''git''
      | Subprocess args cwd r \<Rightarrow> take 1 args = [''git'']
      | Urlretrieve url calls failure \<Rightarrow> True
      | Extractall failure \<Rightarrow> True
      | Iterdir r \<Rightarrow> True
      | _ \<Rightarrow> False)"

definition is_npm :: "effect \<Rightarrow> bool" where
  "is_npm e = (case e of Subprocess args cwd r \<Rightarrow> take 1 args = [''npm''] | _ \<Rightarrow> False)"

text \<open>
  For the run after a failed build: \<open>no_build_failure t s\<close> says that since \<open>t\<close> no
  build exited non-zero; \<open>went_on\<close> says that the warning was printed, the checkpoint 80
  was reported and the configuration step was announced.
\<close>

definition build_failed :: "effect \<Rightarrow> bool" where
  "build_failed x = failed_exit [''npm'', ''run'', ''build''] x"

definition no_build_failure :: "state \<Rightarrow> state \<Rightarrow> bool" where
  "no_build_failure t s = trace_ext (\<lambda>x. \<not> build_failed x) t s"

definition went_on :: "installer \<Rightarrow> state \<Rightarrow> bool" where
  "went_on self s =
     (entry ''WARNING'' ''Demo build failed (not critical)'' \<in> set (stdout s) \<and>
      entry ''INFO'' ''Setting up environment...'' \<in> set (stdout s) \<and>
      (progress_callback self \<longrightarrow> (80, ''Dependencies installed'') \<in> set (progress s)))"

definition warned :: "state \<Rightarrow> bool" where
  "warned s = (entry ''WARNING'' ''Demo build failed (not critical)'' \<in> set (stdout s))"

definition warned80 :: "installer \<Rightarrow> state \<Rightarrow> bool" where
  "warned80 self s =
     (warned s \<and> (progress_callback self \<longrightarrow> (80, ''Dependencies installed'') \<in> set (progress s)))"

subsection \<open>Example platforms and installations\<close>

text \<open>
  A host with \<open>node\<close> and \<open>npm\<close> but neither \<open>git\<close> nor \<open>docker\<close>, 8 GiB of free
  disk, a download reported in three calls of the hook, and an archive with one
  top-level directory.
\<close>

definition demo_tree :: "string \<times> tree" where
  "demo_tree = (''anarqq-ecosystem-demo-main'',
     Folder [(''package.json'', Leaf ''{}''), (''.env.example'', Leaf ''PORT=3000'')])"

definition host :: platform where
  "host = \<lparr>
     version_probe = (\<lambda>t c. if c = ''node'' \<or> c = ''npm'' then Inr (0, ''v20'')
                            else Inl (FileNotFoundError [c])),
     disk_free = (\<lambda>t. Inr (8 * 1024 ^ 3)),
     subprocess = (\<lambda>t args cwd f. (Inr 0, f)),
     urlretrieve = (\<lambda>t url. ([(0, 8192, 16384), (1, 8192, 16384), (2, 8192, 16384)], None)),
     extractall = (\<lambda>t. None),
     iterdir = (\<lambda>t. Inr [demo_tree]),
     os_name = ''posix'',
     python_version = ''3.11.4'',
     temp_dir = [''tmp'', ''tmpx''],
     str_exc = (\<lambda>e. ''error''),
     str_int = (\<lambda>i. ''n''),
     fmt_gb = (\<lambda>i. ''8.0'')\<rparr>"

text \<open>A machine on which only the home directory exists.\<close>

definition fresh :: state where
  "fresh = \<lparr>fs = [[] \<mapsto> Dir, [''home''] \<mapsto> Dir], stdout = [], log_lines = [],
            progress = [], trace = []\<rparr>"

text \<open>The installer as the graphical front end sets it up, with both callbacks.\<close>

definition gui :: installer where
  "gui = (new_installer [''home''])\<lparr>progress_callback := True, log_callback := True\<rparr>"

text \<open>The same host without \<open>node\<close>.\<close>

definition no_node :: platform where
  "no_node = host\<lparr>version_probe := (\<lambda>t c. if c = ''npm'' then Inr (0, ''10.2'')
                                          else Inl (FileNotFoundError [c]))\<rparr>"

text \<open>A machine on which the installation root already exists, as after an earlier run.\<close>

definition revisited :: state where
  "revisited = fresh\<lparr>fs := (fs fresh)([''home'', ''anarqq-ecosystem''] \<mapsto> Dir)\<rparr>"

text \<open>A demo directory that holds a template and a live environment file of the user.\<close>

definition configured :: state where
  "configured = fresh\<lparr>fs := (fs fresh)
     ([''home'', ''anarqq-ecosystem''] \<mapsto> Dir,
      [''home'', ''anarqq-ecosystem'', ''demo''] \<mapsto> Dir,
      [''home'', ''anarqq-ecosystem'', ''demo'', ''.env.example''] \<mapsto> File ''PORT=3000'',
      [''home'', ''anarqq-ecosystem'', ''demo'', ''.env''] \<mapsto> File ''PORT=8080'')\<rparr>"

text \<open>The host with \<open>git\<close> installed, and the same where every \<open>git\<close> command exits 128.\<close>

definition with_git :: platform where
  "with_git = host\<lparr>version_probe := (\<lambda>t c. if c = ''docker'' then Inl (FileNotFoundError [c])
                                            else Inr (0, ''v20''))\<rparr>"

definition git_fails :: platform where
  "git_fails = with_git\<lparr>subprocess :=
     (\<lambda>t args cwd f. (if take 1 args = [''git''] then Inr 128 else Inr 0, f))\<rparr>"

text \<open>The host without a network: every download raises.\<close>

definition no_network :: platform where
  "no_network = host\<lparr>urlretrieve := (\<lambda>t url. ([], Some (OtherError ''URLError'')))\<rparr>"

text \<open>The host on which \<open>npm install\<close> exits 1, and the host on which the build does.\<close>

definition npm_install_fails :: platform where
  "npm_install_fails = host\<lparr>subprocess :=
     (\<lambda>t args cwd f. (if args = [''npm'', ''install''] then Inr 1 else Inr 0, f))\<rparr>"

definition npm_build_fails :: platform where
  "npm_build_fails = host\<lparr>subprocess :=
     (\<lambda>t args cwd f. (if args = [''npm'', ''run'', ''build''] then Inr 1 else Inr 0, f))\<rparr>"

text \<open>A machine on which the demo was cloned by an earlier run.\<close>

definition cloned :: state where
  "cloned = revisited\<lparr>fs := (fs revisited)
     ([''home'', ''anarqq-ecosystem'', ''demo''] \<mapsto> Dir,
      [''home'', ''anarqq-ecosystem'', ''demo'', ''.git''] \<mapsto> Dir)\<rparr>"

text \<open>A machine on which the name of the installation root is taken by a regular file.\<close>

definition blocked :: state where
  "blocked = fresh\<lparr>fs := (fs fresh)([''home'', ''anarqq-ecosystem''] \<mapsto> File [])\<rparr>"

section \<open>Lemmas about the model\<close>

lemma invD: "inv I m \<Longrightarrow> I s \<Longrightarrow> m s = (r, s') \<Longrightarrow> I s'"
  by (auto simp: inv_def dest: spec[of _ s])

lemma inv_ret: "inv I (ret x)"
  by (simp add: inv_def ret_def)

lemma inv_raise: "inv I (raise e)"
  by (simp add: inv_def raise_def)

lemma inv_reads: "inv I (reads g)"
  by (simp add: inv_def reads_def)

lemma inv_andthen: "inv I m \<Longrightarrow> (\<And>x. inv I (f x)) \<Longrightarrow> inv I (andthen m f)"
  unfolding inv_def andthen_def
  by (auto split: prod.splits sum.splits)

lemma inv_try_except: "inv I m \<Longrightarrow> (\<And>e. inv I (h e)) \<Longrightarrow> inv I (try_except m c h)"
  unfolding inv_def try_except_def
  by (auto split: prod.splits sum.splits)

lemma inv_if: "inv I a \<Longrightarrow> inv I b \<Longrightarrow> inv I (if c then a else b)"
  by simp

lemma inv_case_prod: "(\<And>a b. inv I (f a b)) \<Longrightarrow> inv I (case p of (a, b) \<Rightarrow> f a b)"
  by (cases p) simp

lemma inv_case_list: "inv I a \<Longrightarrow> (\<And>x xs. inv I (f x xs)) \<Longrightarrow> inv I (case l of [] \<Rightarrow> a | x # xs \<Rightarrow> f x xs)"
  by (cases l) simp_all

lemma inv_case_option: "inv I a \<Longrightarrow> (\<And>x. inv I (f x)) \<Longrightarrow> inv I (case l of None \<Rightarrow> a | Some x \<Rightarrow> f x)"
  by (cases l) simp_all

lemma inv_let: "(\<And>x. inv I (f x)) \<Longrightarrow> inv I (let x = v in f x)"
  by simp

lemma inv_for_each: "(\<And>x. inv I (f x)) \<Longrightarrow> inv I (for_each f xs)"
  by (induction xs) (auto intro: inv_ret inv_andthen)

lemmas inv_rules = inv_ret inv_raise inv_reads inv_andthen inv_try_except inv_if
  inv_case_prod inv_case_list inv_case_option inv_for_each

subsection \<open>Relations between the state before and after\<close>

lemma progress_ext_refl: "progress_ext s s"
  by (simp add: progress_ext_def)

lemma trace_ext_refl: "trace_ext T s s"
  by (simp add: trace_ext_def)

lemma fs_frame_refl: "fs_frame S s s"
  by (simp add: fs_frame_def)

lemma inv_rel: "inv (R s) m \<Longrightarrow> R s s \<Longrightarrow> m s = (r, s') \<Longrightarrow> R s s'"
  by (rule invD)

text \<open>The primitives\<close>

lemma log_progress: "inv (progress_ext s0) (log self m l)"
  by (auto simp: inv_def log_def progress_ext_def Let_def split: sum.splits)

lemma log_trace: "inv (trace_ext T s0) (log self m l)"
  by (auto simp: inv_def log_def trace_ext_def Let_def split: sum.splits)

lemma open_append_frame: "open_append p t f = Inr f' \<Longrightarrow> q \<noteq> p \<Longrightarrow> f' q = f q"
  by (auto simp: open_append_def in_parent_def split: option.splits node.splits)

lemma log_fs_other: "log self m l s = (r, s') \<Longrightarrow> p \<noteq> log_file self \<Longrightarrow> fs s' p = fs s p"
  by (auto simp: log_def Let_def open_append_frame split: sum.splits if_splits)

lemma log_fs_frame: "log_file self \<in> S \<Longrightarrow> inv (fs_frame S s0) (log self m l)"
  unfolding inv_def fs_frame_def
  by (metis log_fs_other prod.collapse)


subsection \<open>When logging succeeds\<close>

lemma log_stdout_eq: "log self m l s = (r, s') \<Longrightarrow> stdout s' = stdout s @ [entry l m]"
  by (auto simp: log_def Let_def entry_def split: sum.splits)

lemma log_trace_eq: "log self m l s = (r, s') \<Longrightarrow> trace s' = trace s"
  by (auto simp: log_def Let_def split: sum.splits)

lemma log_progress_eq: "log self m l s = (r, s') \<Longrightarrow> progress s' = progress s"
  by (auto simp: log_def Let_def split: sum.splits)

lemma log_ok_iff: "(fst (log self m l s) = Inr ()) = log_ok self (fs s)"
  by (auto simp: log_def Let_def log_ok_def path_exists_def open_append_def in_parent_def
      split: sum.splits option.splits node.splits)

lemma log_ok_after: "log self m l s = (Inr (), s') \<Longrightarrow> log_ok self (fs s')"
  by (auto simp: log_def Let_def log_ok_def path_exists_def open_append_def in_parent_def parent_def
      split: sum.splits option.splits node.splits if_splits)

lemma log_raises_fs: "log self m l s = (Inl e, s') \<Longrightarrow> fs s' = fs s"
  by (auto simp: log_def Let_def split: sum.splits)

lemma log_absent_root: "fs s (parent (log_file self)) = None \<Longrightarrow>
    log self m l s = (Inr (), s\<lparr>stdout := stdout s @ [entry l m],
       log_lines := (if log_callback self then log_lines s @ [entry l m] else log_lines s)\<rparr>)"
  by (auto simp: log_def Let_def entry_def path_exists_def)


subsection \<open>Invariants of the platform calls\<close>

lemma run_version_inv:
  "(\<And>s r. I s \<Longrightarrow> I (s\<lparr>trace := trace s @ [Version_probe c r]\<rparr>)) \<Longrightarrow> inv I (run_version w c)"
  by (simp add: inv_def run_version_def Let_def)

lemma run_checked_inv:
  assumes "\<And>s r. I s \<Longrightarrow> I (s\<lparr>fs := snd (subprocess w (trace s) args cwd (fs s)),
                            trace := trace s @ [Subprocess args cwd r]\<rparr>)"
  shows "inv I (run_checked w args cwd)"
  unfolding inv_def
proof (intro allI impI)
  fix s assume "I s"
  from assms[OF this, of "fst (subprocess w (trace s) args cwd (fs s))"]
  show "I (snd (run_checked w args cwd s))"
    by (auto simp: run_checked_def Let_def split: prod.splits sum.splits)
qed

lemma disk_usage_free_inv:
  "(\<And>s r. I s \<Longrightarrow> I (s\<lparr>trace := trace s @ [Disk_usage r]\<rparr>)) \<Longrightarrow> inv I (disk_usage_free w)"
  by (simp add: inv_def disk_usage_free_def Let_def)

lemma zip_extractall_inv:
  "(\<And>s r. I s \<Longrightarrow> I (s\<lparr>trace := trace s @ [Extractall r]\<rparr>)) \<Longrightarrow> inv I (zip_extractall w)"
  by (auto simp: inv_def zip_extractall_def Let_def split: option.splits)

lemma list_iterdir_inv:
  "(\<And>s r. I s \<Longrightarrow> I (s\<lparr>trace := trace s @ [Iterdir r]\<rparr>)) \<Longrightarrow> inv I (list_iterdir w)"
  by (simp add: inv_def list_iterdir_def Let_def)

lemma fs_op_inv:
  "(\<And>s f'. I s \<Longrightarrow> g (fs s) = Inr f' \<Longrightarrow> I (s\<lparr>fs := f'\<rparr>)) \<Longrightarrow> inv I (fs_op g)"
  by (auto simp: inv_def fs_op_def split: sum.splits)

lemma update_progress_inv:
  "(\<And>s. I s \<Longrightarrow> I (s\<lparr>progress := progress s @ [(v, m)]\<rparr>)) \<Longrightarrow> inv I (update_progress self v m)"
  by (simp add: inv_def update_progress_def)

lemma url_retrieve_inv:
  assumes "\<And>s calls failure. I s \<Longrightarrow> I (s\<lparr>trace := trace s @ [Urlretrieve url calls failure]\<rparr>)"
    and "\<And>c. inv I (hook c)"
  shows "inv I (url_retrieve w url hook)"
proof -
  have "inv I (andthen (for_each hook calls) (\<lambda>_. case failure of None \<Rightarrow> ret () | Some e \<Rightarrow> raise e))"
    for calls failure
    by (intro inv_rules assms)
  then show ?thesis
    using assms(1) by (auto simp: inv_def url_retrieve_def Let_def split: prod.splits)
qed

lemma progress_hook_inv:
  "(\<And>s v m. I s \<Longrightarrow> v \<le> 100 \<Longrightarrow> I (s\<lparr>progress := progress s @ [(v, ''Downloading '' @ m)]\<rparr>))
    \<Longrightarrow> inv I (progress_hook w self d c)"
  unfolding progress_hook_def Let_def
  by (cases c) (auto intro!: inv_rules update_progress_inv simp: min_def)

lemmas call_inv = run_version_inv run_checked_inv disk_usage_free_inv zip_extractall_inv
  list_iterdir_inv fs_op_inv url_retrieve_inv progress_hook_inv

subsection \<open>Progress: what each step may emit\<close>

lemma progress_ext_trace [simp]: "progress_ext s0 (s\<lparr>trace := t\<rparr>) = progress_ext s0 s"
  and progress_ext_fs [simp]: "progress_ext s0 (s\<lparr>fs := f\<rparr>) = progress_ext s0 s"
  by (simp_all add: progress_ext_def)

lemma progress_ext_download:
  "progress_ext s0 s \<Longrightarrow> v \<le> 100
    \<Longrightarrow> progress_ext s0 (s\<lparr>progress := progress s @ [(v, ''Downloading '' @ m)]\<rparr>)"
  by (auto simp: progress_ext_def download_event_def)

lemma check_command_progress: "inv (progress_ext s0) (check_command w c)"
  unfolding check_command_def
  by (intro inv_rules call_inv) simp_all

lemma check_system_requirements_progress:
  "inv (progress_ext s0) (check_system_requirements w self)"
  unfolding check_system_requirements_def
  by (intro inv_rules call_inv log_progress check_command_progress) simp_all

lemma setup_directories_progress: "inv (progress_ext s0) (setup_directories self)"
  unfolding setup_directories_def
  by (intro inv_rules call_inv log_progress) simp_all

lemma zip_fallback_progress: "inv (progress_ext s0) (zip_fallback w self z d n)"
  unfolding zip_fallback_def download_file_def extract_zip_def
  by (intro inv_rules call_inv log_progress progress_ext_download) simp_all

lemma clone_or_download_repo_progress:
  "inv (progress_ext s0) (clone_or_download_repo w self r z d n)"
  unfolding clone_or_download_repo_def vcs_attempt_def
  by (intro inv_rules call_inv log_progress check_command_progress zip_fallback_progress) simp_all

lemma install_dependencies_progress: "inv (progress_ext s0) (install_dependencies w self d n)"
  unfolding install_dependencies_def
  by (intro inv_rules call_inv log_progress) simp_all

lemma setup_environment_progress: "inv (progress_ext s0) (setup_environment self)"
  unfolding setup_environment_def
  by (intro inv_rules call_inv log_progress) simp_all

lemma create_launchers_progress: "inv (progress_ext s0) (create_launchers w self)"
  unfolding create_launchers_def
  by (intro inv_rules call_inv log_progress) simp_all

lemma hoareD_Inr: "hoare P m Q E \<Longrightarrow> P s \<Longrightarrow> m s = (Inr x, s') \<Longrightarrow> Q x s'"
  unfolding hoare_def by fastforce

lemma hoareD_Inl: "hoare P m Q E \<Longrightarrow> P s \<Longrightarrow> m s = (Inl e, s') \<Longrightarrow> E e s'"
  unfolding hoare_def by fastforce

lemma hoareI:
  "(\<And>s x s'. P s \<Longrightarrow> m s = (Inr x, s') \<Longrightarrow> Q x s')
    \<Longrightarrow> (\<And>s e s'. P s \<Longrightarrow> m s = (Inl e, s') \<Longrightarrow> E e s') \<Longrightarrow> hoare P m Q E"
  unfolding hoare_def by (auto split: sum.splits)

lemma hoare_ret: "(\<And>s. P s \<Longrightarrow> Q x s) \<Longrightarrow> hoare P (ret x) Q E"
  by (simp add: hoare_def ret_def)

lemma hoare_raise: "(\<And>s. P s \<Longrightarrow> E e s) \<Longrightarrow> hoare P (raise e) Q E"
  by (simp add: hoare_def raise_def)

lemma hoare_andthen:
  assumes "hoare P m R E" and "\<And>x. hoare (R x) (f x) Q E"
  shows "hoare P (andthen m f) Q E"
proof (rule hoareI)
  fix s x s' assume "P s" and "andthen m f s = (Inr x, s')"
  then show "Q x s'"
    using assms by (auto simp: andthen_def split: prod.splits sum.splits dest: hoareD_Inr)
next
  fix s e s' assume "P s" and "andthen m f s = (Inl e, s')"
  then show "E e s'"
    using assms
    by (auto simp: andthen_def split: prod.splits sum.splits dest: hoareD_Inr hoareD_Inl)
qed

lemma hoare_try_except:
  assumes "hoare P m Q E'" and "\<And>e. c e \<Longrightarrow> hoare (E' e) (h e) Q E"
    and "\<And>e s. \<not> c e \<Longrightarrow> E' e s \<Longrightarrow> E e s"
  shows "hoare P (try_except m c h) Q E"
proof (rule hoareI)
  fix s x s' assume "P s" and "try_except m c h s = (Inr x, s')"
  then show "Q x s'"
    using assms(1,2)
    by (auto simp: try_except_def split: prod.splits sum.splits if_splits
        dest: hoareD_Inr hoareD_Inl)
next
  fix s e s' assume "P s" and "try_except m c h s = (Inl e, s')"
  then show "E e s'"
    using assms
    by (auto simp: try_except_def split: prod.splits sum.splits if_splits
        dest: hoareD_Inr hoareD_Inl)
qed

lemma hoare_if:
  "(c \<Longrightarrow> hoare P a Q E) \<Longrightarrow> (\<not> c \<Longrightarrow> hoare P b Q E) \<Longrightarrow> hoare P (if c then a else b) Q E"
  by simp

lemma hoare_conseq:
  "hoare P' m Q' E' \<Longrightarrow> (\<And>s. P s \<Longrightarrow> P' s) \<Longrightarrow> (\<And>x s. Q' x s \<Longrightarrow> Q x s)
    \<Longrightarrow> (\<And>e s. E' e s \<Longrightarrow> E e s) \<Longrightarrow> hoare P m Q E"
  unfolding hoare_def by (fastforce split: sum.splits)

lemma hoare_inv: "inv I m \<Longrightarrow> (\<And>s. I s \<Longrightarrow> E s) \<Longrightarrow> hoare I m (\<lambda>_. I) (\<lambda>_. E)"
  unfolding hoare_def by (auto split: sum.splits dest: invD)

lemma hoare_top: "hoare P m (\<lambda>_ _. True) (\<lambda>_ _. True)"
  by (auto simp: hoare_def split: sum.splits)

lemma stage_start: "stage self [] s s"
  by (simp add: stage_def)

lemma stage_step:
  assumes "\<And>s1. inv (progress_ext s1) m"
  shows "inv (stage self cs s0) m"
  unfolding inv_def
proof (intro allI impI)
  fix s assume st: "stage self cs s0 s"
  obtain r s' where m: "m s = (r, s')" by (cases "m s")
  have "progress_ext s s'"
    by (rule invD[OF assms progress_ext_refl m])
  then obtain pv' where pv': "progress s' = progress s @ pv'" "list_all download_event pv'"
    by (auto simp: progress_ext_def)
  from pv'(2) have "filter (\<lambda>e. \<not> download_report e) pv' = []"
    and "list_all (\<lambda>e. fst e \<le> 100) (filter download_report pv')"
    by (auto simp: download_event_def download_report_def list_all_iff filter_empty_conv)
  with st pv'(1) have "stage self cs s0 s'"
    by (auto simp: stage_def)
  then show "stage self cs s0 (snd (m s))" using m by simp
qed

lemma stage_tick:
  assumes "\<not> prefix ''Downloading '' msg" and "\<And>s. stage self (cs @ [(v, msg)]) s0 s \<Longrightarrow> E s"
  shows "hoare (stage self cs s0) (update_progress self v msg)
           (\<lambda>_. stage self (cs @ [(v, msg)]) s0) (\<lambda>_. E)"
  using assms(1)
  by (auto simp: hoare_def update_progress_def stage_def download_report_def)

lemma stage_tick':
  assumes "\<not> prefix ''Downloading '' msg" and "cs' = cs @ [(v, msg)]"
    and "\<And>s. stage self cs' s0 s \<Longrightarrow> E s"
  shows "hoare (stage self cs s0) (update_progress self v msg)
           (\<lambda>_. stage self cs' s0) (\<lambda>_. E)"
  using assms(1,2)
  by (auto simp: hoare_def update_progress_def stage_def download_report_def)

lemma stage_step_hoare:
  "(\<And>s1. inv (progress_ext s1) m) \<Longrightarrow> (\<And>s. stage self cs s0 s \<Longrightarrow> E s)
    \<Longrightarrow> hoare (stage self cs s0) m (\<lambda>_. stage self cs s0) (\<lambda>_. E)"
  by (rule hoare_inv[OF stage_step])

lemma some_stageI: "prefix cs (checkpoints c) \<Longrightarrow> stage self cs s0 s \<Longrightarrow> some_stage self c s0 s"
  by (auto simp: some_stage_def)

lemmas step_progress = log_progress check_system_requirements_progress setup_directories_progress
  clone_or_download_repo_progress install_dependencies_progress setup_environment_progress
  create_launchers_progress

lemma install_steps_stage:
  "hoare (stage self [] s0) (install_steps w self c)
     (\<lambda>b s. some_stage self c s0 s \<and> (b \<longrightarrow> stage self (checkpoints c) s0 s))
     (\<lambda>e. some_stage self c s0)"
  unfolding install_steps_def
  apply (rule hoare_andthen, rule stage_tick, simp)
   apply (erule some_stageI[rotated], simp add: checkpoints_def)
  apply (rule hoare_andthen, rule stage_step_hoare, rule step_progress)
   apply (erule some_stageI[rotated], simp add: checkpoints_def)
  apply (rule hoare_if)
   apply (rule hoare_andthen, rule stage_step_hoare, rule step_progress)
    apply (erule some_stageI[rotated], simp add: checkpoints_def)
   apply (rule hoare_ret, simp)
   apply (erule some_stageI[rotated], simp add: checkpoints_def)
  apply (rule hoare_andthen, rule stage_tick, simp)
   apply (erule some_stageI[rotated], simp add: checkpoints_def)
  apply (rule hoare_andthen, rule stage_step_hoare, rule step_progress)
   apply (erule some_stageI[rotated], simp add: checkpoints_def)
  apply (rule hoare_andthen, rule stage_tick, simp)
   apply (erule some_stageI[rotated], simp add: checkpoints_def)
  apply (rule hoare_andthen, rule stage_step_hoare, rule step_progress)
   apply (erule some_stageI[rotated], simp add: checkpoints_def)
  apply (rule hoare_andthen, rule stage_tick, simp)
   apply (erule some_stageI[rotated], simp add: checkpoints_def)
  apply (rule hoare_andthen[where R = "\<lambda>_. stage self (take 5 (checkpoints c)) s0"])
   apply (rule hoare_if)
    apply (rule hoare_andthen, rule stage_step_hoare, rule step_progress)
     apply (erule some_stageI[rotated], simp add: checkpoints_def)
    apply (rule stage_tick', simp, simp add: checkpoints_def)
    apply (erule some_stageI[rotated], simp add: checkpoints_def)
   apply (rule stage_tick', simp, simp add: checkpoints_def)
   apply (erule some_stageI[rotated], simp add: checkpoints_def)
  apply (rule hoare_andthen, rule stage_step_hoare, rule step_progress)
   apply (erule some_stageI[rotated], simp add: checkpoints_def)
  apply (rule hoare_andthen, rule stage_tick, simp)
   apply (erule some_stageI[rotated], simp add: checkpoints_def)
  apply (rule hoare_andthen, rule stage_step_hoare, rule step_progress)
   apply (erule some_stageI[rotated], simp add: checkpoints_def)
  apply (rule hoare_andthen, rule stage_tick, simp)
   apply (erule some_stageI[rotated], simp add: checkpoints_def)
  apply (rule hoare_andthen, rule stage_step_hoare, rule step_progress)
   apply (erule some_stageI[rotated], simp add: checkpoints_def)
  apply (rule hoare_andthen, rule stage_tick, simp)
   apply (erule some_stageI[rotated], simp add: checkpoints_def)
  apply (rule hoare_andthen, rule stage_step_hoare, rule step_progress)
   apply (erule some_stageI[rotated], simp add: checkpoints_def)
  apply (rule hoare_ret)
  apply (rule conjI)
   apply (erule some_stageI[rotated], simp add: checkpoints_def)
  apply (simp add: checkpoints_def)
  done

lemma log_completed: "inv (completed self) (log self' m l)"
  unfolding inv_def completed_def
  by (metis log_progress_eq prod.collapse)

lemma install_steps_completed:
  "hoare (\<lambda>s. True) (install_steps w self c) (\<lambda>b s. b \<longrightarrow> completed self s) (\<lambda>_ _. True)"
  unfolding install_steps_def
  apply (rule hoare_andthen, rule hoare_top)
  apply (rule hoare_andthen, rule hoare_top)
  apply (rule hoare_if)
   apply (rule hoare_andthen, rule hoare_top, rule hoare_ret, simp)
  apply (rule hoare_andthen, rule hoare_top)
  apply (rule hoare_andthen, rule hoare_top)
  apply (rule hoare_andthen, rule hoare_top)
  apply (rule hoare_andthen, rule hoare_top)
  apply (rule hoare_andthen, rule hoare_top)
  apply (rule hoare_andthen, rule hoare_top)
  apply (rule hoare_andthen, rule hoare_top)
  apply (rule hoare_andthen, rule hoare_top)
  apply (rule hoare_andthen, rule hoare_top)
  apply (rule hoare_andthen, rule hoare_top)
  apply (rule hoare_andthen, rule hoare_top)
  apply (rule hoare_andthen[where R = "\<lambda>_. completed self"])
   apply (simp add: hoare_def update_progress_def completed_def)
  apply (rule hoare_andthen, rule hoare_inv[OF log_completed])
   apply simp
  apply (rule hoare_ret, simp)
  done

lemma install_cases:
  assumes "install w self c s = (r, s')"
  obtains (normal) b where "install_steps w self c s = (Inr b, s')" "r = Inr b"
  | (failed) e s1 where "install_steps w self c s = (Inl e, s1)"
      "log self (''Installation failed: '' @ str_exc w e) ''ERROR'' s1 = (Inr (), s')" "r = Inr False"
  | (escaped) e s1 e' where "install_steps w self c s = (Inl e, s1)"
      "log self (''Installation failed: '' @ str_exc w e) ''ERROR'' s1 = (Inl e', s')" "r = Inl e'"
  using assms
  by (auto simp: install_def try_except_def any_exception_def andthen_def ret_def
      split: prod.splits sum.splits)

lemma some_stage_log:
  "some_stage self c s0 s \<Longrightarrow> log self m l s = (r, s') \<Longrightarrow> some_stage self c s0 s'"
  unfolding some_stage_def
  by (metis invD[OF stage_step[OF log_progress]])

lemma install_progress_stage:
  assumes "install w self c s = (r, s')"
  shows "some_stage self c s s'"
    and "r = Inr True \<Longrightarrow> stage self (checkpoints c) s s' \<and> completed self s'"
proof -
  note st = install_steps_stage[of self s w c]
  show "some_stage self c s s'"
    using assms
  proof (cases rule: install_cases)
    case (normal b)
    then show ?thesis using hoareD_Inr[OF st stage_start] by simp
  next
    case (failed e s1)
    then show ?thesis using hoareD_Inl[OF st stage_start] some_stage_log by blast
  next
    case (escaped e s1 e')
    then show ?thesis using hoareD_Inl[OF st stage_start] some_stage_log by blast
  qed
  show "stage self (checkpoints c) s s' \<and> completed self s'" if "r = Inr True"
    using assms
  proof (cases rule: install_cases)
    case (normal b)
    then show ?thesis
      using that hoareD_Inr[OF st stage_start] hoareD_Inr[OF install_steps_completed _ normal(1)]
      by simp
  next
    case (failed e s1)
    then show ?thesis using that by simp
  next
    case (escaped e s1 e')
    then show ?thesis using that by simp
  qed
qed

lemma sorted_checkpoints: "prefix cs (checkpoints c) \<Longrightarrow> sorted (map fst cs)"
  by (auto simp: prefix_def checkpoints_def append_eq_Cons_conv Cons_eq_append_conv)

subsection \<open>What the filesystem operations change\<close>

lemma mkdir_other: "mkdir p f = Inr f' \<Longrightarrow> q \<noteq> p \<Longrightarrow> f' q = f q"
  by (auto simp: mkdir_def in_parent_def split: option.splits node.splits if_splits)

lemma mkdir_made: "mkdir p f = Inr f' \<Longrightarrow> f' p = Some Dir"
  by (auto simp: mkdir_def in_parent_def split: option.splits node.splits if_splits)

lemma mkdir_dirs: "mkdir p f = Inr f' \<Longrightarrow> f q = Some Dir \<Longrightarrow> f' q = Some Dir"
  by (auto simp: mkdir_def in_parent_def split: option.splits node.splits if_splits)

lemma touch_other: "touch p f = Inr f' \<Longrightarrow> q \<noteq> p \<Longrightarrow> f' q = f q"
  by (auto simp: touch_def in_parent_def split: option.splits node.splits if_splits)

lemma touch_dirs: "touch p f = Inr f' \<Longrightarrow> (f' q = Some Dir) = (f q = Some Dir)"
  by (auto simp: touch_def in_parent_def split: option.splits node.splits if_splits)

lemma open_append_dirs: "open_append p t f = Inr f' \<Longrightarrow> (f' q = Some Dir) = (f q = Some Dir)"
  by (auto simp: open_append_def in_parent_def split: option.splits node.splits if_splits)

lemma open_write_other: "open_write p t f = Inr f' \<Longrightarrow> q \<noteq> p \<Longrightarrow> f' q = f q"
  by (auto simp: open_write_def in_parent_def split: option.splits node.splits if_splits)

lemma chmod_same: "chmod p f = Inr f' \<Longrightarrow> f' = f"
  by (auto simp: chmod_def split: if_splits)

lemma copy2_other: "copy2 src dst f = Inr f' \<Longrightarrow> \<not> prefix dst q \<Longrightarrow> f' q = f q"
  by (auto simp: copy2_def split: option.splits node.splits if_splits dest!: open_write_other[where q = q])

lemma rmtree_other: "rmtree p f = Inr f' \<Longrightarrow> \<not> prefix p q \<Longrightarrow> f' q = f q"
  by (auto simp: rmtree_def split: option.splits node.splits if_splits)

lemma rmtree_cases: "rmtree p f = Inr f' \<Longrightarrow> f' q = f q \<or> f' q = None"
  by (auto simp: rmtree_def split: option.splits node.splits if_splits)

lemma move_other:
  "move src dst f = Inr f' \<Longrightarrow> \<not> prefix dst q
    \<Longrightarrow> f' q = f q \<or> (strict_prefix q dst \<and> f q = None \<and> f' q = Some Dir)"
  by (auto simp: move_def graft_def in_parent_def dest: append_prefixD
      split: option.splits node.splits if_splits tree.splits)

subsection \<open>The log file stays writable\<close>

lemma log_writable_imp_ok: "log_writable self f \<Longrightarrow> log_ok self f"
  by (auto simp: log_writable_def log_ok_def is_file_def split: option.splits node.splits if_splits)

lemma log_writable_log: "inv (\<lambda>s. log_writable self (fs s)) (log self m l)"
  by (auto simp: inv_def log_def Let_def log_writable_def is_file_def path_exists_def
      open_append_def in_parent_def parent_def split: sum.splits option.splits node.splits if_splits)

lemma log_writable_same:
  "log_writable self f \<Longrightarrow> f' (log_file self) = f (log_file self) \<or> f' (log_file self) = None
    \<Longrightarrow> f' (parent (log_file self)) = f (parent (log_file self)) \<or> f' (parent (log_file self)) = None
        \<or> f' (parent (log_file self)) = Some Dir
    \<Longrightarrow> log_writable self f'"
  by (auto simp: log_writable_def is_file_def)

lemma copy2_cases: "copy2 src dst f = Inr f' \<Longrightarrow> f' q = f q \<or> is_file (f' q)"
  by (auto simp: copy2_def open_write_def in_parent_def is_file_def
      split: option.splits node.splits if_splits)

lemma mkdir_writable:
  "mkdir p f = Inr f' \<Longrightarrow> log_writable self f \<Longrightarrow> p \<noteq> log_file self \<Longrightarrow> log_writable self f'"
  by (auto simp: mkdir_def in_parent_def log_writable_def is_file_def
      split: option.splits node.splits if_splits)

lemma touch_writable:
  "touch p f = Inr f' \<Longrightarrow> log_writable self f \<Longrightarrow> p \<noteq> parent (log_file self)
    \<Longrightarrow> log_writable self f'"
  by (auto simp: touch_def in_parent_def log_writable_def is_file_def
      split: option.splits node.splits if_splits)

lemma open_write_writable:
  "open_write p t f = Inr f' \<Longrightarrow> log_writable self f \<Longrightarrow> p \<noteq> parent (log_file self)
    \<Longrightarrow> log_writable self f'"
  by (auto simp: open_write_def in_parent_def log_writable_def is_file_def
      split: option.splits node.splits if_splits)

lemma chmod_writable: "chmod p f = Inr f' \<Longrightarrow> log_writable self f \<Longrightarrow> log_writable self f'"
  by (auto dest: chmod_same)

lemma copy2_writable:
  assumes "copy2 src dst f = Inr f'" and "log_writable self f"
    and "\<not> prefix dst (parent (log_file self))"
  shows "log_writable self f'"
proof -
  have "f' (parent (log_file self)) = f (parent (log_file self))"
    using assms(1,3) by (rule copy2_other)
  moreover have "f' (log_file self) = f (log_file self) \<or> is_file (f' (log_file self))"
    using assms(1) by (rule copy2_cases)
  ultimately show ?thesis
    using assms(2) by (auto simp: log_writable_def is_file_def split: option.splits node.splits)
qed

lemma rmtree_writable: "rmtree p f = Inr f' \<Longrightarrow> log_writable self f \<Longrightarrow> log_writable self f'"
  using rmtree_cases[of p f f' "log_file self"] rmtree_cases[of p f f' "parent (log_file self)"]
  by (auto simp: log_writable_def is_file_def)

lemma move_writable:
  assumes "move src dst f = Inr f'" and "log_writable self f"
    and "\<not> prefix dst (log_file self)" and "\<not> prefix dst (parent (log_file self))"
    and "\<not> strict_prefix (log_file self) dst"
  shows "log_writable self f'"
  using move_other[OF assms(1,3)] move_other[OF assms(1,4)] assms(2,5)
  by (auto simp: log_writable_def is_file_def)

text \<open>With the paths derived from the installation root, the steps of a run keep the log
  file writable.\<close>

lemma derived_facts:
  assumes "derived_paths self"
  shows "parent (log_file self) = install_dir self"
    and "install_dir self \<noteq> log_file self" and "demo_dir self \<noteq> log_file self"
    and "core_dir self \<noteq> log_file self" and "log_file self \<noteq> install_dir self"
    and "\<not> prefix (demo_dir self) (log_file self)" and "\<not> prefix (demo_dir self) (install_dir self)"
    and "\<not> prefix (core_dir self) (log_file self)" and "\<not> prefix (core_dir self) (install_dir self)"
    and "\<not> strict_prefix (log_file self) (demo_dir self)"
    and "\<not> strict_prefix (log_file self) (core_dir self)"
    and "\<not> prefix (demo_dir self @ [''.env'']) (install_dir self)"
    and "install_dir self @ [x] \<noteq> install_dir self"
  using assms by (auto simp: derived_paths_def parent_def strict_prefix_def)

lemma writable_fields [simp]:
  "log_writable self (fs (s\<lparr>trace := t\<rparr>)) = log_writable self (fs s)"
  "log_writable self (fs (s\<lparr>progress := p\<rparr>)) = log_writable self (fs s)"
  by simp_all

lemma run_checked_writable: "quiet w self \<Longrightarrow> inv (writable self) (run_checked w args cwd)"
  unfolding quiet_def
  by (rule run_checked_inv) simp

lemma check_command_writable: "inv (writable self) (check_command w c)"
  unfolding check_command_def
  by (intro inv_rules call_inv) simp_all

lemma check_system_requirements_writable: "inv (writable self) (check_system_requirements w self)"
  unfolding check_system_requirements_def
  by (intro inv_rules call_inv log_writable_log check_command_writable) simp_all

lemma setup_directories_writable:
  "derived_paths self \<Longrightarrow> inv (writable self) (setup_directories self)"
  unfolding setup_directories_def
  by (intro inv_rules call_inv log_writable_log)
    (auto simp: derived_facts elim: mkdir_writable touch_writable)

lemma zip_fallback_writable:
  assumes "\<not> prefix d (log_file self)" and "\<not> prefix d (parent (log_file self))"
    and "\<not> strict_prefix (log_file self) d"
  shows "inv (writable self) (zip_fallback w self z d n)"
  unfolding zip_fallback_def download_file_def extract_zip_def
  by (intro inv_rules call_inv log_writable_log)
    (auto elim: rmtree_writable move_writable[OF _ _ assms])

lemma clone_or_download_repo_writable:
  assumes "quiet w self" and "\<not> prefix d (log_file self)" and "\<not> prefix d (parent (log_file self))"
    and "\<not> strict_prefix (log_file self) d"
  shows "inv (writable self) (clone_or_download_repo w self r z d n)"
  unfolding clone_or_download_repo_def vcs_attempt_def
  by (intro inv_rules call_inv log_writable_log check_command_writable
      run_checked_writable[OF assms(1)] zip_fallback_writable[OF assms(2-4)])

lemma install_dependencies_writable:
  "quiet w self \<Longrightarrow> inv (writable self) (install_dependencies w self d n)"
  unfolding install_dependencies_def
  by (intro inv_rules call_inv log_writable_log run_checked_writable)

lemma setup_environment_writable:
  "derived_paths self \<Longrightarrow> inv (writable self) (setup_environment self)"
  unfolding setup_environment_def
  by (intro inv_rules call_inv log_writable_log)
    (auto simp: derived_facts elim: copy2_writable)

lemma create_launchers_writable:
  "derived_paths self \<Longrightarrow> inv (writable self) (create_launchers w self)"
  unfolding create_launchers_def
  by (intro inv_rules call_inv log_writable_log)
    (auto simp: derived_facts elim: open_write_writable chmod_writable)

lemma update_progress_writable: "inv (writable self) (update_progress self' v m)"
  by (simp add: inv_def update_progress_def)

lemma install_steps_writable:
  assumes "derived_paths self" and "quiet w self"
  shows "inv (writable self) (install_steps w self c)"
  unfolding install_steps_def
  by (intro inv_rules log_writable_log update_progress_writable
      check_system_requirements_writable setup_directories_writable[OF assms(1)]
      clone_or_download_repo_writable[OF assms(2)] install_dependencies_writable[OF assms(2)]
      setup_environment_writable[OF assms(1)] create_launchers_writable[OF assms(1)])
    (simp_all add: derived_facts[OF assms(1)])

lemma log_writable_returns:
  "log_writable self (fs s) \<Longrightarrow> \<exists>s'. log self m l s = (Inr (), s') \<and> log_writable self (fs s')"
  using log_ok_iff[of self m l s] invD[OF log_writable_log, of self s m l]
  by (metis (full_types) log_writable_imp_ok prod.collapse)

text \<open>Where the log file stays writable, \<open>install\<close> returns a verdict.\<close>

lemma install_returns:
  assumes "derived_paths self" and "quiet w self" and "log_writable self (fs s)"
  shows "\<exists>b. fst (install w self c s) = Inr b"
proof -
  obtain r s' where run: "install w self c s = (r, s')"
    by (cases "install w self c s")
  from run show ?thesis
  proof (cases rule: install_cases)
    case (normal b)
    with run show ?thesis by simp
  next
    case (failed e s1)
    with run show ?thesis by auto
  next
    case (escaped e s1 e')
    have "log_writable self (fs s1)"
      using invD[OF install_steps_writable[OF assms(1,2)] assms(3) escaped(1)] .
    from log_writable_returns[OF this] escaped(2) show ?thesis
      by (metis Inl_Inr_False fst_conv)
  qed
qed

lemma log_only_refl: "log_only self s s"
  by (simp add: log_only_def)

lemma log_only_fields [simp]:
  "log_only self s0 (s\<lparr>trace := t\<rparr>) = log_only self s0 s"
  "log_only self s0 (s\<lparr>progress := p\<rparr>) = log_only self s0 s"
  by (simp_all add: log_only_def)

lemma log_dirs: "log self m l s = (r, s') \<Longrightarrow> (fs s' p = Some Dir) = (fs s p = Some Dir)"
  by (auto simp: log_def Let_def open_append_dirs split: sum.splits if_splits)

lemma log_absent_fs: "log self m l s = (r, s') \<Longrightarrow> fs s (parent (log_file self)) = None \<Longrightarrow> fs s' = fs s"
  by (auto simp: log_def Let_def path_exists_def split: sum.splits if_splits)

lemma log_log_only: "inv (log_only self s0) (log self m l)"
  unfolding inv_def
proof (intro allI impI)
  fix s assume a: "log_only self s0 s"
  obtain r s' where l: "log self m l s = (r, s')" by (cases "log self m l s")
  have "log_only self s0 s'"
    unfolding log_only_def
  proof (intro conjI allI impI)
    fix p assume "p \<noteq> log_file self"
    then show "fs s' p = fs s0 p" using a log_fs_other[OF l] by (simp add: log_only_def)
  next
    fix p show "(fs s' p = Some Dir) = (fs s0 p = Some Dir)"
      using a log_dirs[OF l] by (simp add: log_only_def)
  next
    assume "fs s0 (parent (log_file self)) = None"
    then show "fs s' = fs s0" using a log_absent_fs[OF l] by (simp add: log_only_def)
  qed
  then show "log_only self s0 (snd (log self m l s))" using l by simp
qed

lemma check_command_log_only: "inv (log_only self s0) (check_command w c)"
  unfolding check_command_def
  by (intro inv_rules call_inv) simp_all

lemma check_system_requirements_log_only:
  "inv (log_only self s0) (check_system_requirements w self)"
  unfolding check_system_requirements_def
  by (intro inv_rules call_inv log_log_only check_command_log_only) simp_all

lemma trace_ext_fields [simp]:
  "trace_ext T s0 (s\<lparr>fs := f\<rparr>) = trace_ext T s0 s"
  "trace_ext T s0 (s\<lparr>progress := p\<rparr>) = trace_ext T s0 s"
  by (simp_all add: trace_ext_def)

lemma trace_ext_snoc:
  "trace_ext T s0 s \<Longrightarrow> T e \<Longrightarrow> trace_ext T s0 (s\<lparr>trace := trace s @ [e]\<rparr>)"
  by (auto simp: trace_ext_def)

lemma check_command_trace:
  "(\<And>r. T (Version_probe c r)) \<Longrightarrow> inv (trace_ext T s0) (check_command w c)"
  unfolding check_command_def
  by (intro inv_rules call_inv trace_ext_snoc) simp_all

lemma check_system_requirements_trace:
  "inv (trace_ext is_query s0) (check_system_requirements w self)"
  unfolding check_system_requirements_def
  by (intro inv_rules call_inv log_trace check_command_trace trace_ext_snoc)
    (simp_all add: is_query_def)

lemma log_ok_log: "inv (\<lambda>s. log_ok self (fs s)) (log self m l)"
  unfolding inv_def
  by (metis (full_types) log_ok_after log_ok_iff prod.collapse)

lemma check_command_log_ok: "inv (\<lambda>s. log_ok self (fs s)) (check_command w c)"
  unfolding check_command_def
  by (intro inv_rules call_inv) simp_all

lemma hoare_log_ok: "hoare P (log self m l) (\<lambda>_ s. log_ok self (fs s)) (\<lambda>_ _. True)"
  by (rule hoareI) (auto elim: log_ok_after)

lemma hoare_then_inv:
  assumes "hoare P m (\<lambda>_. I) (\<lambda>_ _. True)" and "\<And>x. inv I (f x)"
  shows "hoare P (andthen m f) (\<lambda>_. I) (\<lambda>_ _. True)"
  by (rule hoare_andthen[OF assms(1)]) (rule hoare_inv[OF assms(2)], simp)

lemma check_system_requirements_log_ok:
  assumes "check_system_requirements w self s = (Inr b, s')"
  shows "log_ok self (fs s')"
proof -
  have "hoare (\<lambda>s. True) (check_system_requirements w self)
          (\<lambda>_ s. log_ok self (fs s)) (\<lambda>_ _. True)"
    unfolding check_system_requirements_def
    by (rule hoare_then_inv, rule hoare_log_ok)
      (intro inv_rules call_inv log_ok_log check_command_log_ok; simp)
  from hoareD_Inr[OF this _ assms] show ?thesis by simp
qed

lemma log_progress_same: "inv (\<lambda>s. progress s = p) (log self m l)"
  unfolding inv_def by (metis log_progress_eq prod.collapse)

lemma check_command_progress_same: "inv (\<lambda>s. progress s = p) (check_command w c)"
  unfolding check_command_def
  by (intro inv_rules call_inv) simp_all

lemma check_system_requirements_progress_same:
  "inv (\<lambda>s. progress s = p) (check_system_requirements w self)"
  unfolding check_system_requirements_def
  by (intro inv_rules call_inv log_progress_same check_command_progress_same) simp_all

lemma failed_requirements_run:
  assumes "check_system_requirements w self (starting self s) = (Inr False, s1)"
  obtains s2 where "log self ''System requirements not met'' ''ERROR'' s1 = (Inr (), s2)"
    and "install w self install_core s = (Inr False, s2)"
proof -
  have ok: "log_ok self (fs s1)"
    using check_system_requirements_log_ok[OF assms(1)] .
  obtain s2 where l: "log self ''System requirements not met'' ''ERROR'' s1 = (Inr (), s2)"
    using ok log_ok_iff[of self "''System requirements not met''" "''ERROR''" s1]
    by (metis prod.collapse)
  have steps: "install_steps w self install_core s = (Inr False, s2)"
    using assms(1) l
    by (simp add: install_steps_def andthen_def update_progress_def starting_def ret_def)
  then have run: "install w self install_core s = (Inr False, s2)"
    by (simp add: install_def try_except_def)
  with l that show ?thesis by blast
qed

lemma log_lines_absent:
  "log self m l s = (r, s') \<Longrightarrow> fs s (parent (log_file self)) = None
    \<Longrightarrow> r = Inr () \<and> log_lines s' = log_lines s @ (if log_callback self then [entry l m] else [])"
  by (auto simp: log_absent_root)

lemma log_appends:
  assumes "log self m l s = (r, s')" and "fs s' \<noteq> fs s"
  shows "fs s (parent (log_file self)) = Some Dir \<and>
         (\<exists>c. (fs s (log_file self) = Some (File c) \<or> fs s (log_file self) = None \<and> c = []) \<and>
              fs s' = (fs s)(log_file self \<mapsto> File (c @ entry l m @ [CHR 0x0A])))"
  using assms
  by (auto simp: log_def Let_def entry_def open_append_def in_parent_def path_exists_def
      split: sum.splits if_splits option.splits node.splits)

lemma andthen_cases:
  assumes "andthen m f s = (r, s')"
  obtains (raised) e where "m s = (Inl e, s')" "r = Inl e"
  | (continued) x s1 where "m s = (Inr x, s1)" "f x s1 = (r, s')"
  using assms by (auto simp: andthen_def split: prod.splits sum.splits)

lemma log_keeps_dir:
  "log self m l s = (r, s') \<Longrightarrow> fs s p = Some Dir \<Longrightarrow> fs s' p = Some Dir"
  using log_dirs by blast

lemma setup_directories_core:
  assumes "setup_directories self s = (Inr (), s')"
  shows "fs s' (core_dir self) = Some Dir"
proof -
  have "hoare (\<lambda>s. True) (setup_directories self)
          (\<lambda>_ s. fs s (core_dir self) = Some Dir) (\<lambda>_ _. True)"
    unfolding setup_directories_def
    apply (rule hoare_andthen, rule hoare_top)
    apply (rule hoare_andthen, rule hoare_top)
    apply (rule hoare_andthen, rule hoare_top)
    apply (rule hoare_andthen[where R = "\<lambda>_ s. fs s (core_dir self) = Some Dir"])
     apply (rule hoareI)
      apply (auto simp: fs_op_def split: sum.splits dest: mkdir_made)[2]
    apply (rule hoare_andthen[where R = "\<lambda>_ s. fs s (core_dir self) = Some Dir"])
     apply (rule hoareI)
      apply (auto simp: fs_op_def touch_dirs split: sum.splits)[2]
    apply (rule hoareI)
     apply (auto dest: log_keeps_dir)
    done
  from hoareD_Inr[OF this _ assms] show ?thesis by simp
qed

lemma has_core_fields [simp]:
  "fs (s\<lparr>trace := t\<rparr>) p = fs s p" "fs (s\<lparr>progress := pr\<rparr>) p = fs s p"
  by simp_all

lemma log_has_core: "inv (has_core self) (log self m l)"
  unfolding inv_def by (metis log_keeps_dir prod.collapse)

lemma run_checked_has_core: "keeps_core w self \<Longrightarrow> inv (has_core self) (run_checked w args cwd)"
  unfolding keeps_core_def
  by (rule run_checked_inv) simp

lemma check_command_has_core: "inv (has_core self) (check_command w c)"
  unfolding check_command_def
  by (intro inv_rules call_inv) simp_all

lemma rmtree_keeps: "rmtree p f = Inr f' \<Longrightarrow> \<not> prefix p q \<Longrightarrow> f q = Some Dir \<Longrightarrow> f' q = Some Dir"
  by (simp add: rmtree_other)

lemma move_keeps: "move src p f = Inr f' \<Longrightarrow> \<not> prefix p q \<Longrightarrow> f q = Some Dir \<Longrightarrow> f' q = Some Dir"
  using move_other by fastforce

lemma zip_fallback_has_core:
  assumes "\<not> prefix d (core_dir self)"
  shows "inv (has_core self) (zip_fallback w self z d n)"
  unfolding zip_fallback_def download_file_def extract_zip_def
  by (intro inv_rules call_inv log_has_core)
    (auto elim: rmtree_keeps[OF _ assms] move_keeps[OF _ assms])

lemma clone_or_download_repo_has_core:
  assumes "keeps_core w self" and "\<not> prefix d (core_dir self)"
  shows "inv (has_core self) (clone_or_download_repo w self r z d n)"
  unfolding clone_or_download_repo_def vcs_attempt_def
  by (intro inv_rules call_inv log_has_core check_command_has_core
      run_checked_has_core[OF assms(1)] zip_fallback_has_core[OF assms(2)])

lemma install_dependencies_has_core:
  "keeps_core w self \<Longrightarrow> inv (has_core self) (install_dependencies w self d n)"
  unfolding install_dependencies_def
  by (intro inv_rules call_inv log_has_core run_checked_has_core)

lemma copy2_keeps: "copy2 a b f = Inr f' \<Longrightarrow> \<not> prefix b q \<Longrightarrow> f q = Some Dir \<Longrightarrow> f' q = Some Dir"
  by (simp add: copy2_other)

lemma open_write_keeps: "open_write p t f = Inr f' \<Longrightarrow> p \<noteq> q \<Longrightarrow> f q = Some Dir \<Longrightarrow> f' q = Some Dir"
  by (simp add: open_write_other)

lemma setup_environment_has_core:
  "derived_paths self \<Longrightarrow> inv (has_core self) (setup_environment self)"
  unfolding setup_environment_def
  by (intro inv_rules call_inv log_has_core)
    (auto simp: derived_paths_def elim!: copy2_keeps)

lemma create_launchers_has_core:
  "derived_paths self \<Longrightarrow> inv (has_core self) (create_launchers w self)"
  unfolding create_launchers_def
  by (intro inv_rules call_inv log_has_core)
    (auto simp: derived_paths_def dest: chmod_same elim!: open_write_keeps)

lemma update_progress_has_core: "inv (has_core self) (update_progress self' v m)"
  by (simp add: inv_def update_progress_def)

lemma hoare_inv_top: "inv I m \<Longrightarrow> hoare I m (\<lambda>_. I) (\<lambda>_ _. True)"
  by (rule hoare_inv) simp_all

lemma andthen_InrE:
  assumes "andthen m f s = (Inr y, s')"
  obtains x s1 where "m s = (Inr x, s1)" "f x s1 = (Inr y, s')"
  using assms by (auto simp: andthen_def split: prod.splits sum.splits)

lemma ret_InrE: "ret x s = (Inr y, s') \<Longrightarrow> (y = x \<Longrightarrow> s' = s \<Longrightarrow> P) \<Longrightarrow> P"
  by (simp add: ret_def)

lemma check_command_Inr:
  assumes "check_command w c s = (Inr (av, v), s')"
  shows "trace s' = trace s @ [Version_probe c (version_probe w (trace s) c)]"
    and "av = tool_available (version_probe w (trace s) c)"
    and "fs s' = fs s"
  using assms
  by (auto simp: check_command_def try_except_def andthen_def run_version_def Let_def ret_def
      tool_available_def is_TimeoutExpired_or_FileNotFoundError_def
      split: sum.splits prod.splits if_splits error.splits)

lemma log_raises_again:
  assumes "log self m l s = (Inl e, s1)"
  shows "fst (log self m' l' s1) \<noteq> Inr ()"
proof -
  have "\<not> log_ok self (fs s)"
    using assms log_ok_iff[of self m l s] by simp
  then have "\<not> log_ok self (fs s1)"
    using log_raises_fs[OF assms] by simp
  then show ?thesis
    using log_ok_iff[of self m' l' s1] by simp
qed

lemma disk_block:
  assumes "try_except
             (andthen (disk_usage_free w) (\<lambda>free.
                if enough_disk free
                then andthen (log self (m1 free) l1) (\<lambda>_. ret (errors::nat))
                else andthen (log self (m2 free) l2) (\<lambda>_. ret (errors + 1))))
             any_exception
             (\<lambda>e. andthen (log self (m3 e) l3) (\<lambda>_. ret errors)) s = (Inr n, s')"
  shows "n = errors + (case disk_free w (trace s) of
                        Inr free \<Rightarrow> if enough_disk free then 0 else 1 | Inl e \<Rightarrow> 0)"
proof (cases "disk_free w (trace s)")
  case (Inl e)
  with assms show ?thesis
    by (auto simp: try_except_def andthen_def disk_usage_free_def Let_def ret_def any_exception_def
        split: prod.splits sum.splits)
next
  case (Inr free)
  let ?s1 = "s\<lparr>trace := trace s @ [Disk_usage (Inr free)]\<rparr>"
  let ?m = "if enough_disk free then m1 free else m2 free"
  let ?l = "if enough_disk free then l1 else l2"
  obtain r1 s2 where l: "log self ?m ?l ?s1 = (r1, s2)"
    by (cases "log self ?m ?l ?s1")
  show ?thesis
  proof (cases r1)
    case (Inr u)
    with assms l \<open>disk_free w (trace s) = Inr free\<close> show ?thesis
      by (auto simp: try_except_def andthen_def disk_usage_free_def Let_def ret_def
          split: prod.splits sum.splits if_splits)
  next
    case (Inl e)
    with l have "fst (log self (m3 e) l3 s2) \<noteq> Inr ()"
      using log_raises_again by blast
    with assms l Inl \<open>disk_free w (trace s) = Inr free\<close> show ?thesis
      by (auto simp: try_except_def andthen_def disk_usage_free_def Let_def ret_def any_exception_def
          split: prod.splits sum.splits if_splits)
  qed
qed

lemma check_command_InrD:
  "check_command w c s = (Inr (av, v), s')
    \<Longrightarrow> trace s' = trace s @ [Version_probe c (version_probe w (trace s) c)] \<and>
        av = tool_available (version_probe w (trace s) c)"
  using check_command_Inr(1,2) by blast

subsection \<open>The trace only grows\<close>

lemma trace_ext_trans:
  "trace_ext T s0 s \<Longrightarrow> trace_ext T s s' \<Longrightarrow> trace_ext T s0 s'"
  by (auto simp: trace_ext_def)

lemma trace_ext_mono: "trace_ext T s0 s \<Longrightarrow> (\<And>e. T e \<Longrightarrow> T' e) \<Longrightarrow> trace_ext T' s0 s"
  by (auto simp: trace_ext_def list_all_iff)

lemma zip_fallback_trace:
  "inv (trace_ext (\<lambda>e. \<not> is_subprocess e) s0) (zip_fallback w self z d n)"
  unfolding zip_fallback_def download_file_def extract_zip_def
  by (intro inv_rules call_inv log_trace trace_ext_snoc)
    (simp_all add: is_subprocess_def)

text \<open>What stays on standard output.\<close>

lemma log_printed: "inv (\<lambda>s. x \<in> set (stdout s)) (log self m l)"
  unfolding inv_def by (metis UnCI log_stdout_eq prod.collapse set_append)

lemma check_command_printed: "inv (\<lambda>s. x \<in> set (stdout s)) (check_command w c)"
  unfolding check_command_def
  by (intro inv_rules call_inv) simp_all

lemma zip_fallback_printed: "inv (\<lambda>s. x \<in> set (stdout s)) (zip_fallback w self z d n)"
  unfolding zip_fallback_def download_file_def extract_zip_def
  by (intro inv_rules call_inv log_printed) simp_all

lemma log_prints: "log self m l s = (r, s') \<Longrightarrow> entry l m \<in> set (stdout s')"
  by (simp add: log_stdout_eq)

lemma andthen_establishes:
  assumes "andthen m f s = (r, s')" and "\<And>r1 s1. m s = (r1, s1) \<Longrightarrow> P s1"
    and "\<And>x. inv P (f x)"
  shows "P s'"
  using assms(1)
proof (cases rule: andthen_cases)
  case (raised e)
  then show ?thesis using assms(2) by blast
next
  case (continued x s1)
  from assms(2)[OF continued(1)] continued(2) show ?thesis
    by (rule invD[OF assms(3)])
qed

lemma zip_fallback_announced:
  assumes "zip_fallback w self z d n s = (r, s')"
  shows "entry ''INFO'' (''Downloading '' @ n @ '' as ZIP...'') \<in> set (stdout s')"
  using assms unfolding zip_fallback_def download_file_def extract_zip_def
  apply (rule andthen_establishes)
   apply (erule log_prints)
  apply (intro inv_rules call_inv log_printed)
        apply simp_all
  done

subsection \<open>The archive fallback starts with a download\<close>

lemma inv_by_trace:
  assumes "\<And>s0. inv (trace_ext T s0) m" and "\<And>s s'. I s \<Longrightarrow> trace_ext T s s' \<Longrightarrow> I s'"
  shows "inv I m"
  unfolding inv_def
proof (intro allI impI)
  fix s assume "I s"
  obtain r s' where m: "m s = (r, s')" by (cases "m s")
  from invD[OF assms(1) trace_ext_refl m] have "trace_ext T s s'" .
  with \<open>I s\<close> have "I s'" by (rule assms(2))
  then show "I (snd (m s))" using m by simp
qed

lemma retrieved_ext: "retrieved url t s \<Longrightarrow> trace_ext T s s' \<Longrightarrow> retrieved url t s'"
  by (fastforce simp: retrieved_def trace_ext_def)

lemma log_retrieved: "inv (retrieved url t) (log self m l)"
  by (rule inv_by_trace[OF log_trace retrieved_ext])

lemma hoare_log_returns:
  "hoare (\<lambda>s. log_ok self (fs s) \<and> trace s = t) (log self m l)
     (\<lambda>_ s. log_ok self (fs s) \<and> trace s = t) (\<lambda>_ _. False)"
proof (rule hoareI)
  fix s x s' assume "log_ok self (fs s) \<and> trace s = t" and "log self m l s = (Inr x, s')"
  then show "log_ok self (fs s') \<and> trace s' = t"
    using log_ok_after[of self m l s s'] log_trace_eq[of self m l s "Inr x" s'] by simp
next
  fix s e s' assume "log_ok self (fs s) \<and> trace s = t" and "log self m l s = (Inl e, s')"
  then show False
    using log_ok_iff[of self m l s] by simp
qed

lemma progress_hook_trace: "inv (\<lambda>s. trace s = t) (progress_hook w self d c)"
  by (rule progress_hook_inv) simp

lemma url_retrieve_retrieved:
  "hoare (\<lambda>s. trace s = t) (url_retrieve w url (progress_hook w self d))
     (\<lambda>_. retrieved url t) (\<lambda>_. retrieved url t)"
proof -
  have "retrieved url t s'"
    if "trace s = t" and "url_retrieve w url (progress_hook w self d) s = (r, s')" for s r s'
  proof -
    obtain calls failure where u: "urlretrieve w (trace s) url = (calls, failure)"
      by (cases "urlretrieve w (trace s) url")
    let ?s1 = "s\<lparr>trace := trace s @ [Urlretrieve url calls failure]\<rparr>"
    let ?m = "andthen (for_each (progress_hook w self d) calls)
                (\<lambda>_. case failure of None \<Rightarrow> ret () | Some e \<Rightarrow> raise e)"
    have run: "?m ?s1 = (r, s')"
      using that(2) u by (simp add: url_retrieve_def)
    have "inv (\<lambda>s. trace s = trace ?s1) ?m"
      by (intro inv_rules progress_hook_trace)
    from invD[OF this refl run] that(1) show ?thesis
      by (auto simp: retrieved_def)
  qed
  then show ?thesis
    by (intro hoareI) blast+
qed

lemma zip_fallback_retrieves:
  "hoare (\<lambda>s. log_ok self (fs s) \<and> trace s = t) (zip_fallback w self z d n)
     (\<lambda>_. retrieved z t) (\<lambda>_. retrieved z t)"
  unfolding zip_fallback_def download_file_def extract_zip_def
  apply (rule hoare_andthen)
   apply (rule hoare_conseq[OF hoare_log_returns], assumption, assumption, simp)
  apply (rule hoare_andthen[where R = "\<lambda>_. retrieved z t"])
   apply (rule hoare_andthen)
    apply (rule hoare_conseq[OF hoare_log_returns], assumption, assumption, simp)
   apply (rule hoare_andthen[where R = "\<lambda>_. retrieved z t"])
    apply (rule hoare_conseq[OF url_retrieve_retrieved], simp, assumption, assumption)
   apply (rule hoare_inv[OF log_retrieved], assumption)
  apply (rule hoare_inv[OF inv_by_trace[where T = "\<lambda>_. True", OF _ retrieved_ext]])
    apply (intro inv_rules call_inv log_trace trace_ext_snoc)
               apply simp_all
  done

subsection \<open>The two outcomes of a call of log\<close>

lemma log_eq:
  "log self m l s =
     (if log_ok self (fs s) then (Inr (), logged self l m s)
      else (Inl (log_failure self (fs s)), printed l m s))"
  by (auto simp: log_def Let_def log_ok_def logged_def printed_def log_failure_def entry_def
      path_exists_def open_append_def in_parent_def split: option.splits node.splits)

lemma logged_simps [simp]:
  "trace (logged self l m s) = trace s"
  "progress (logged self l m s) = progress s"
  "stdout (logged self l m s) = stdout s @ [entry l m]"
  unfolding logged_def
  using log_trace_eq[of self m l s] log_progress_eq[of self m l s] log_stdout_eq[of self m l s]
  by (metis prod.collapse)+

lemma printed_simps [simp]:
  "trace (printed l m s) = trace s" "fs (printed l m s) = fs s"
  "progress (printed l m s) = progress s" "stdout (printed l m s) = stdout s @ [entry l m]"
  by (simp_all add: printed_def)

lemma logged_fs_other [simp]: "p \<noteq> log_file self \<Longrightarrow> fs (logged self l m s) p = fs s p"
  unfolding logged_def using log_fs_other[of self m l s] by (metis prod.collapse)

lemma logged_log_ok [simp]: "log_ok self (fs s) \<Longrightarrow> log_ok self (fs (logged self l m s))"
  unfolding logged_def using log_ok_after[of self m l s] log_ok_iff[of self m l s]
  by (metis prod.collapse)

lemma logged_writable [simp]:
  "log_writable self (fs s) \<Longrightarrow> log_writable self (fs (logged self l m s))"
  unfolding logged_def using invD[OF log_writable_log, of self s m l]
  by (metis prod.collapse)

subsection \<open>The version-control attempt\<close>

lemma working_copy_logged [simp]:
  "log_file self \<noteq> d \<Longrightarrow> log_file self \<noteq> d @ [''.git'']
    \<Longrightarrow> working_copy (fs (logged self l m s)) d = working_copy (fs s) d"
  by (simp add: working_copy_def path_exists_def)

lemma run_checked_eq:
  "run_checked w args cwd s =
     (case answer w args cwd s of
        Inl e \<Rightarrow> (Inl e, after_command w args cwd s)
      | Inr rc \<Rightarrow> if rc = 0 then (Inr (), after_command w args cwd s)
                 else (Inl (CalledProcessError args rc), after_command w args cwd s))"
  by (simp add: run_checked_def answer_def after_command_def case_prod_unfold Let_def
      split: sum.splits)

lemma after_command_simps [simp]:
  "trace (after_command w args cwd s) = trace s @ [Subprocess args cwd (answer w args cwd s)]"
  "stdout (after_command w args cwd s) = stdout s"
  "progress (after_command w args cwd s) = progress s"
  by (simp_all add: after_command_def)

lemma after_command_writable [simp]:
  "quiet w self \<Longrightarrow> log_writable self (fs s)
    \<Longrightarrow> log_writable self (fs (after_command w args cwd s))"
  by (simp add: after_command_def quiet_def)

subsection \<open>Following a run step by step\<close>

lemma try_except_cases:
  assumes "try_except m c h s = (r, s')"
  obtains (returned) x where "m s = (Inr x, s')" "r = Inr x"
  | (passed) e where "m s = (Inl e, s')" "\<not> c e" "r = Inl e"
  | (handled) e s1 where "m s = (Inl e, s1)" "c e" "h e s1 = (r, s')"
  using assms by (auto simp: try_except_def split: prod.splits sum.splits if_splits)

lemma logD:
  "log self m l s = (r, s')
    \<Longrightarrow> (log_ok self (fs s) \<and> r = Inr () \<and> s' = logged self l m s) \<or>
        (\<not> log_ok self (fs s) \<and> r = Inl (log_failure self (fs s)) \<and> s' = printed l m s)"
  by (auto simp: log_eq split: if_splits)

lemma run_checkedD:
  "run_checked w args cwd s = (r, s')
    \<Longrightarrow> s' = after_command w args cwd s \<and>
        r = (case answer w args cwd s of
               Inl e \<Rightarrow> Inl e
             | Inr rc \<Rightarrow> if rc = 0 then Inr () else Inl (CalledProcessError args rc))"
  by (auto simp: run_checked_eq split: sum.splits if_splits)

lemma readsD: "reads g s = (r, s') \<Longrightarrow> r = Inr (g s) \<and> s' = s"
  by (auto simp: reads_def)

lemma retD: "ret x s = (r, s') \<Longrightarrow> r = Inr x \<and> s' = s"
  by (auto simp: ret_def)

lemma raiseD: "raise e s = (r, s') \<Longrightarrow> r = Inl e \<and> s' = s"
  by (auto simp: raise_def)

lemmas run_elims = andthen_cases try_except_cases

lemmas run_dests = logD run_checkedD readsD retD raiseD

lemma vcs_attempt_outcome:
  assumes run: "vcs_attempt w self repo_url destination name s = (r, s')"
    and q: "quiet w self" and wr: "log_writable self (fs s)"
  shows "log_writable self (fs s') \<and>
         (\<exists>args cwd res. trace s' = trace s @ [Subprocess args cwd res] \<and>
              vcs_result w args res r s')"
  using assms unfolding vcs_attempt_def
  apply (auto elim!: run_elims dest!: run_dests simp: log_writable_imp_ok
      split: if_splits sum.splits)
  apply (auto simp: vcs_result_def is_CalledProcessError_def)
  done

lemma vcs_attempt_trace:
  assumes "vcs_attempt w self repo_url destination name s = (r, s')"
    and "log_file self \<noteq> destination" and "log_file self \<noteq> destination @ [''.git'']"
  shows "if log_ok self (fs s)
         then \<exists>res. trace s' = trace s @ [vcs_command (fs s) repo_url destination res]
         else trace s' = trace s \<and> (\<exists>e. r = Inl e)"
  using assms unfolding vcs_attempt_def
  by (auto elim!: run_elims dest!: run_dests
      simp: vcs_command_def git_pull_def git_clone_def working_copy_def path_exists_def
      split: if_splits sum.splits)

lemma check_command_state:
  assumes "check_command w c s = (r, s')"
  shows "s' = s\<lparr>trace := trace s @ [Version_probe c (version_probe w (trace s) c)]\<rparr>"
  using assms
  by (auto simp: check_command_def try_except_def andthen_def run_version_def Let_def ret_def
      split: sum.splits prod.splits if_splits)

subsection \<open>The archive fallback step by step\<close>

lemma for_each_progress_hook:
  "for_each (progress_hook w self d) calls s = (r, s')
    \<Longrightarrow> r = Inr () \<and> trace s' = trace s \<and> fs s' = fs s \<and> stdout s' = stdout s"
proof (induction calls arbitrary: s)
  case Nil
  then show ?case by (simp add: ret_def)
next
  case (Cons c calls)
  have "fst (progress_hook w self d c s) = Inr () \<and>
        trace (snd (progress_hook w self d c s)) = trace s \<and>
        fs (snd (progress_hook w self d c s)) = fs s \<and>
        stdout (snd (progress_hook w self d c s)) = stdout s"
    by (cases c) (simp add: progress_hook_def update_progress_def ret_def Let_def)
  then obtain s1 where "progress_hook w self d c s = (Inr (), s1)"
    and "trace s1 = trace s" "fs s1 = fs s" "stdout s1 = stdout s"
    by (metis prod.collapse)
  with Cons show ?case
    by (auto simp: andthen_def)
qed

lemma url_retrieveD:
  assumes "url_retrieve w url (progress_hook w self d) s = (r, s')"
  shows "trace s' = trace s @ [after_retrieve w url s] \<and> fs s' = fs s \<and> stdout s' = stdout s \<and>
         r = (case snd (urlretrieve w (trace s) url) of None \<Rightarrow> Inr () | Some e \<Rightarrow> Inl e)"
proof -
  obtain calls failure where u: "urlretrieve w (trace s) url = (calls, failure)"
    by (cases "urlretrieve w (trace s) url")
  let ?s1 = "s\<lparr>trace := trace s @ [Urlretrieve url calls failure]\<rparr>"
  obtain r1 s2 where f: "for_each (progress_hook w self d) calls ?s1 = (r1, s2)"
    by (cases "for_each (progress_hook w self d) calls ?s1")
  from for_each_progress_hook[OF f] assms u f show ?thesis
    by (auto simp: url_retrieve_def andthen_def ret_def raise_def after_retrieve_def
        split: option.splits)
qed

lemma zip_extractallD:
  "zip_extractall w s = (r, s')
    \<Longrightarrow> s' = s\<lparr>trace := trace s @ [Extractall (extractall w (trace s))]\<rparr> \<and>
        r = (case extractall w (trace s) of None \<Rightarrow> Inr () | Some e \<Rightarrow> Inl e)"
  by (auto simp: zip_extractall_def Let_def split: option.splits)

lemma list_iterdirD:
  "list_iterdir w s = (r, s')
    \<Longrightarrow> s' = s\<lparr>trace := trace s @ [Iterdir (iterdir w (trace s))]\<rparr> \<and> r = iterdir w (trace s)"
  by (auto simp: list_iterdir_def Let_def)

lemma fs_opD:
  "fs_op g s = (r, s')
    \<Longrightarrow> (\<exists>f'. g (fs s) = Inr f' \<and> r = Inr () \<and> s' = s\<lparr>fs := f'\<rparr>) \<or>
        (\<exists>e. g (fs s) = Inl e \<and> r = Inl e \<and> s' = s)"
  by (auto simp: fs_op_def split: sum.splits)

lemmas fetch_dests = url_retrieveD zip_extractallD list_iterdirD fs_opD

lemma zip_fallback_fatal:
  assumes "zip_fallback w self z d n s = (r, s')"
  shows "\<exists>ev. trace s' = trace s @ ev \<and> (\<forall>x \<in> set ev. \<forall>e. fatal_with e x \<longrightarrow> r = Inl e) \<and>
           (\<forall>x \<in> set ev. \<not> is_subprocess x)"
  using assms unfolding zip_fallback_def download_file_def extract_zip_def
  by (auto elim!: run_elims dest!: run_dests fetch_dests
      simp: fatal_with_def after_retrieve_def is_subprocess_def
      split: if_splits sum.splits option.splits list.splits)

subsection \<open>Which questions each step puts to the platform\<close>

lemma inv_trace_mono:
  assumes "\<And>s0. inv (trace_ext T s0) m" and "\<And>e. T e \<Longrightarrow> T' e"
  shows "inv (trace_ext T' s0) m"
proof (rule inv_by_trace[OF assms(1)])
  fix s s' assume "trace_ext T' s0 s" and "trace_ext T s s'"
  from this(2) have "trace_ext T' s s'" by (rule trace_ext_mono) (rule assms(2))
  with \<open>trace_ext T' s0 s\<close> show "trace_ext T' s0 s'" by (rule trace_ext_trans)
qed

lemma run_checked_trace:
  "(\<And>r. T (Subprocess args cwd r)) \<Longrightarrow> inv (trace_ext T s0) (run_checked w args cwd)"
  by (rule run_checked_inv) (auto simp: trace_ext_def)

lemma update_progress_trace: "inv (trace_ext T s0) (update_progress self v m)"
  by (rule update_progress_inv) simp

lemma clone_or_download_repo_trace:
  "inv (trace_ext is_acquire s0) (clone_or_download_repo w self r z d n)"
  unfolding clone_or_download_repo_def vcs_attempt_def zip_fallback_def download_file_def
    extract_zip_def
  by (intro inv_rules call_inv log_trace check_command_trace run_checked_trace trace_ext_snoc)
    (simp_all add: is_acquire_def)

lemma install_dependencies_trace:
  "inv (trace_ext is_npm s0) (install_dependencies w self d n)"
  unfolding install_dependencies_def
  by (intro inv_rules call_inv log_trace run_checked_trace)
    (simp_all add: is_npm_def)

lemma setup_directories_trace: "inv (trace_ext T s0) (setup_directories self)"
  unfolding setup_directories_def
  by (intro inv_rules call_inv log_trace) simp_all

lemma setup_environment_trace: "inv (trace_ext T s0) (setup_environment self)"
  unfolding setup_environment_def
  by (intro inv_rules call_inv log_trace) simp_all

lemma create_launchers_trace: "inv (trace_ext T s0) (create_launchers w self)"
  unfolding create_launchers_def
  by (intro inv_rules call_inv log_trace) simp_all

lemmas step_trace =
  update_progress_trace log_trace setup_directories_trace setup_environment_trace
  create_launchers_trace
  inv_trace_mono[OF check_system_requirements_trace]
  inv_trace_mono[OF clone_or_download_repo_trace]
  inv_trace_mono[OF install_dependencies_trace]

subsection \<open>A run that returns normally met no fatal failure\<close>

lemma clone_or_download_repo_fatal:
  assumes "clone_or_download_repo w self repo_url z d n s = (r, s')"
  shows "trace_ext (\<lambda>x. \<forall>e. fatal_with e x \<longrightarrow> r = Inl e) s s'"
proof -
  let ?T = "\<lambda>x. \<forall>e. fatal_with e x \<longrightarrow> r = Inl e"
  have sub: "inv (trace_ext ?T s0) (vcs_attempt w self repo_url d n)" for s0
    unfolding vcs_attempt_def
    by (intro inv_rules call_inv log_trace run_checked_trace) (simp_all add: fatal_with_def)
  have chk: "inv (trace_ext ?T s0) (check_command w ''git'')" for s0
    by (rule check_command_trace) (simp add: fatal_with_def)
  from assms show ?thesis
    unfolding clone_or_download_repo_def
  proof (cases rule: andthen_cases)
    case (raised e)
    then show ?thesis using invD[OF chk trace_ext_refl] by blast
  next
    case (continued x s1)
    note t1 = invD[OF chk trace_ext_refl continued(1)]
    obtain ga v where x: "x = (ga, v)" by (cases x)
    from continued(2)[unfolded x] have
      "andthen (if ga then vcs_attempt w self repo_url d n else ret False)
         (\<lambda>returned. if returned then ret () else zip_fallback w self z d n) s1 = (r, s')"
      by simp
    then show ?thesis
    proof (cases rule: andthen_cases)
      case (raised e)
      then have "trace_ext ?T s1 s'"
        using invD[OF sub trace_ext_refl] by (auto simp: ret_def split: if_splits)
      with t1 show ?thesis by (rule trace_ext_trans)
    next
      case (continued returned s2)
      then have t2: "trace_ext ?T s1 s2"
        using invD[OF sub trace_ext_refl] by (auto simp: ret_def trace_ext_refl split: if_splits)
      have "trace_ext ?T s2 s'"
      proof (cases returned)
        case True
        with continued(2) show ?thesis by (simp add: ret_def trace_ext_refl)
      next
        case False
        with continued(2) have "zip_fallback w self z d n s2 = (r, s')" by simp
        from zip_fallback_fatal[OF this] show ?thesis
          by (auto simp: trace_ext_def list_all_iff)
      qed
      with t1 t2 show ?thesis by (blast intro: trace_ext_trans)
    qed
  qed
qed

lemma install_dependencies_fatal:
  assumes "install_dependencies w self d n s = (Inr x, s')"
  shows "trace_ext (\<lambda>x. \<not> fatal x) s s'"
  using assms unfolding install_dependencies_def
  by (auto elim!: run_elims dest!: run_dests
      simp: trace_ext_def fatal_def fatal_with_def failed_exit_def
      split: if_splits sum.splits)

lemma trace_ext_conj:
  "trace_ext T s s' \<Longrightarrow> trace_ext T' s s' \<Longrightarrow> trace_ext (\<lambda>x. T x \<and> T' x) s s'"
  by (auto simp: trace_ext_def list_all_iff)

lemma hoare_rel:
  assumes "\<And>s x s'. m s = (Inr x, s') \<Longrightarrow> trace_ext T s s'"
  shows "hoare (trace_ext T t) m (\<lambda>_. trace_ext T t) (\<lambda>_ _. True)"
  by (rule hoareI) (blast intro: trace_ext_trans assms)+

lemma clone_or_download_repo_no_fatal:
  "hoare (trace_ext (\<lambda>x. \<not> fatal x) t) (clone_or_download_repo w self r z d n)
     (\<lambda>_. trace_ext (\<lambda>x. \<not> fatal x) t) (\<lambda>_ _. True)"
proof (rule hoare_rel)
  fix s x s' assume run: "clone_or_download_repo w self r z d n s = (Inr x, s')"
  from trace_ext_conj[OF clone_or_download_repo_fatal[OF run]
      invD[OF clone_or_download_repo_trace trace_ext_refl run]]
  show "trace_ext (\<lambda>x. \<not> fatal x) s s'"
    by (rule trace_ext_mono)
      (auto simp: fatal_def failed_exit_def is_acquire_def split: effect.splits)
qed

lemma install_steps_no_fatal:
  "hoare (trace_ext (\<lambda>x. \<not> fatal x) t) (install_steps w self c)
     (\<lambda>_. trace_ext (\<lambda>x. \<not> fatal x) t) (\<lambda>_ _. True)"
proof -
  have q: "is_query e \<Longrightarrow> \<not> fatal e" for e
    by (auto simp: is_query_def fatal_def fatal_with_def failed_exit_def split: effect.splits)
  note step = hoare_inv_top[OF update_progress_trace] hoare_inv_top[OF log_trace]
    hoare_inv_top[OF setup_directories_trace] hoare_inv_top[OF setup_environment_trace]
    hoare_inv_top[OF create_launchers_trace]
    hoare_inv_top[OF inv_trace_mono[OF check_system_requirements_trace q]]
    clone_or_download_repo_no_fatal hoare_rel[OF install_dependencies_fatal]
  show ?thesis
    unfolding install_steps_def
    apply (rule hoare_andthen, rule step)
    apply (rule hoare_andthen, rule step, assumption)
    apply (rule hoare_if)
     apply (rule hoare_andthen, rule step, rule hoare_ret, assumption)
    apply (rule hoare_andthen, rule step)
    apply (rule hoare_andthen, rule step)
    apply (rule hoare_andthen, rule step)
    apply (rule hoare_andthen, rule step)
    apply (rule hoare_andthen, rule step)
    apply (rule hoare_andthen[where R = "\<lambda>_. trace_ext (\<lambda>x. \<not> fatal x) t"])
     apply (rule hoare_if)
      apply (rule hoare_andthen, rule step, rule step)
     apply (rule step)
    apply (rule hoare_andthen, rule step, assumption)
    apply (rule hoare_andthen, rule step)
    apply (rule hoare_andthen, rule step)
    apply (rule hoare_andthen, rule step)
    apply (rule hoare_andthen, rule step)
    apply (rule hoare_andthen, rule step)
    apply (rule hoare_andthen, rule step)
    apply (rule hoare_ret, assumption)
    done
qed

text \<open>A fatal failure in the trace of a run makes the run return false, where the log
  file stays writable.\<close>

lemma install_fatal_false:
  assumes run: "install w self c s = (r, s')" and tr: "trace s' = trace s @ ev"
    and d: "derived_paths self" and q: "quiet w self" and wr: "log_writable self (fs s)"
    and f: "x \<in> set ev" "fatal x"
  shows "r = Inr False"
  using run
proof (cases rule: install_cases)
  case (normal b)
  from hoareD_Inr[OF install_steps_no_fatal trace_ext_refl normal(1)] tr f
  show ?thesis by (auto simp: trace_ext_def list_all_iff)
next
  case (failed e s1)
  then show ?thesis by simp
next
  case (escaped e s1 e')
  have "log_writable self (fs s1)"
    using invD[OF install_steps_writable[OF d q] wr escaped(1)] .
  from log_writable_returns[OF this] escaped(2) show ?thesis
    by (metis Inl_Inr_False fst_conv)
qed

lemma vcs_attempt_printed: "inv (\<lambda>s. x \<in> set (stdout s)) (vcs_attempt w self r d n)"
  unfolding vcs_attempt_def
  by (intro inv_rules call_inv log_printed) simp_all

lemma acquisition_vcs_failure:
  assumes run: "clone_or_download_repo w self repo_url zip_url destination name s = (r, s')"
    and tr: "trace s' = trace s @ ev"
    and q: "quiet w self" and wr: "log_writable self (fs s)"
    and f: "Subprocess args cwd (Inr rc) \<in> set ev" "rc \<noteq> 0"
  shows "entry ''WARNING'' (''Git clone failed: '' @ str_exc w (CalledProcessError args rc))
           \<in> set (stdout s') \<and>
         (\<exists>calls failure. Urlretrieve zip_url calls failure \<in> set ev)"
  using run unfolding clone_or_download_repo_def
proof (cases rule: andthen_cases)
  case (raised e)
  from check_command_state[OF raised(1)] tr f show ?thesis by auto
next
  case (continued x s1)
  obtain ga v where x: "x = (ga, v)" by (cases x)
  have s1: "s1 = s\<lparr>trace := trace s @ [Version_probe ''git'' (version_probe w (trace s) ''git'')]\<rparr>"
    using continued(1) by (rule check_command_state)
  then have w1: "log_writable self (fs s1)" using wr by simp
  show ?thesis
  proof (cases ga)
    case False
    with continued(2) x have "zip_fallback w self zip_url destination name s1 = (r, s')"
      by (simp add: andthen_def ret_def)
    from zip_fallback_fatal[OF this] s1 tr f show ?thesis
      by (fastforce simp: is_subprocess_def)
  next
    case True
    with continued(2) x obtain r2 s2 where
      v: "vcs_attempt w self repo_url destination name s1 = (r2, s2)"
      and rest: "(case r2 of Inl e \<Rightarrow> (Inl e, s2)
                  | Inr returned \<Rightarrow> (if returned then ret ()
                      else zip_fallback w self zip_url destination name) s2) = (r, s')"
      by (auto simp: andthen_def split: prod.splits sum.splits)
    from vcs_attempt_outcome[OF v q w1]
    obtain a c res where w2: "log_writable self (fs s2)"
      and t2: "trace s2 = trace s1 @ [Subprocess a c res]" and vr: "vcs_result w a res r2 s2"
      by blast
    have only: "a = args \<and> res = Inr rc"
    proof (cases "r2 = Inr False")
      case True
      with rest have z: "zip_fallback w self zip_url destination name s2 = (r, s')" by simp
      from zip_fallback_fatal[OF z] t2 s1 tr f show ?thesis
        by (fastforce simp: is_subprocess_def)
    next
      case False
      with rest have "s' = s2"
        by (cases r2) (auto simp: ret_def split: if_splits)
      with t2 s1 tr f show ?thesis by auto
    qed
    with vr f(2) have r2: "r2 = Inr False"
      and warn: "entry ''WARNING'' (''Git clone failed: '' @ str_exc w (CalledProcessError args rc))
           \<in> set (stdout s2)"
      by (simp_all add: vcs_result_def)
    from rest r2 have z: "zip_fallback w self zip_url destination name s2 = (r, s')" by simp
    have 1: "entry ''WARNING'' (''Git clone failed: '' @ str_exc w (CalledProcessError args rc))
           \<in> set (stdout s')"
      using invD[OF zip_fallback_printed warn z] .
    have "retrieved zip_url (trace s2) s'"
      using hoareD_Inr[OF zip_fallback_retrieves, of self s2 "trace s2"]
        hoareD_Inl[OF zip_fallback_retrieves, of self s2 "trace s2"] z w2
      by (cases r) (auto simp: log_writable_imp_ok)
    with t2 s1 tr have 2: "\<exists>calls failure. Urlretrieve zip_url calls failure \<in> set ev"
      by (fastforce simp: retrieved_def)
    from 1 2 show ?thesis by simp
  qed
qed

subsection \<open>The dependency installer\<close>

lemma install_dependencies_install_failure:
  assumes "install_dependencies w self d n s = (r, s')" and "trace s' = trace s @ ev"
    and "quiet w self" and "log_writable self (fs s)"
    and "Subprocess [''npm'', ''install''] cwd (Inr rc) \<in> set ev" and "rc \<noteq> 0"
  shows "r = Inl (CalledProcessError [''npm'', ''install''] rc) \<and>
         entry ''ERROR'' (''Failed to install '' @ n @ '' dependencies: ''
             @ str_exc w (CalledProcessError [''npm'', ''install''] rc)) \<in> set (stdout s') \<and>
         (\<forall>c res. Subprocess [''npm'', ''run'', ''build''] c res \<notin> set ev)"
  using assms unfolding install_dependencies_def
  by (auto elim!: run_elims dest!: run_dests
      simp: log_writable_imp_ok is_CalledProcessError_def
      split: if_splits sum.splits)

lemma install_dependencies_build_failure:
  assumes "install_dependencies w self d n s = (r, s')" and "trace s' = trace s @ ev"
    and "quiet w self" and "log_writable self (fs s)"
    and "Subprocess [''npm'', ''run'', ''build''] cwd (Inr rc) \<in> set ev" and "rc \<noteq> 0"
  shows "r = Inr () \<and> entry ''WARNING'' (n @ '' build failed (not critical)'') \<in> set (stdout s')"
  using assms unfolding install_dependencies_def
  by (auto elim!: run_elims dest!: run_dests
      simp: log_writable_imp_ok is_CalledProcessError_def
      split: if_splits sum.splits)

subsection \<open>After a failed build the run goes on\<close>

lemma inv_conj: "inv A m \<Longrightarrow> inv B m \<Longrightarrow> inv (\<lambda>s. A s \<and> B s) m"
  by (auto simp: inv_def)

lemma inv_disj: "inv A m \<Longrightarrow> inv B m \<Longrightarrow> inv (\<lambda>s. A s \<or> B s) m"
  by (auto simp: inv_def)

lemma inv_const: "inv (\<lambda>s. P) m"
  by (simp add: inv_def)

lemma log_emitted: "inv (\<lambda>s. x \<in> set (progress s)) (log self m l)"
  unfolding inv_def by (metis log_progress_eq prod.collapse)

lemma update_progress_emitted: "inv (\<lambda>s. x \<in> set (progress s)) (update_progress self v m)"
  by (rule update_progress_inv) simp

lemma update_progress_printed: "inv (\<lambda>s. x \<in> set (stdout s)) (update_progress self v m)"
  by (rule update_progress_inv) simp

lemma setup_environment_emitted: "inv (\<lambda>s. x \<in> set (progress s)) (setup_environment self)"
  unfolding setup_environment_def
  by (intro inv_rules call_inv log_emitted) simp_all

lemma setup_environment_printed: "inv (\<lambda>s. x \<in> set (stdout s)) (setup_environment self)"
  unfolding setup_environment_def
  by (intro inv_rules call_inv log_printed) simp_all

lemma create_launchers_emitted: "inv (\<lambda>s. x \<in> set (progress s)) (create_launchers w self)"
  unfolding create_launchers_def
  by (intro inv_rules call_inv log_emitted) simp_all

lemma create_launchers_printed: "inv (\<lambda>s. x \<in> set (stdout s)) (create_launchers w self)"
  unfolding create_launchers_def
  by (intro inv_rules call_inv log_printed) simp_all

lemma setup_environment_announced:
  assumes "setup_environment self s = (r, s')"
  shows "entry ''INFO'' ''Setting up environment...'' \<in> set (stdout s')"
  using assms unfolding setup_environment_def
  apply (rule andthen_establishes)
   apply (erule log_prints)
  apply (intro inv_rules call_inv log_printed)
   apply simp_all
  done

lemma failed_exitD:
  "failed_exit args x \<Longrightarrow> \<exists>cwd rc. x = Subprocess args cwd (Inr rc) \<and> rc \<noteq> 0"
  by (cases x; simp add: failed_exit_def split: sum.splits)

lemma nbf_step:
  assumes "\<And>s0. inv (trace_ext T s0) m" and "\<And>e. T e \<Longrightarrow> \<not> build_failed e"
  shows "inv (no_build_failure t) m"
  unfolding no_build_failure_def
  by (rule inv_trace_mono[OF assms(1)]) (rule assms(2))

lemma not_build_failed:
  "is_query e \<Longrightarrow> \<not> build_failed e" "is_acquire e \<Longrightarrow> \<not> build_failed e"
  by (auto simp: build_failed_def failed_exit_def is_query_def is_acquire_def split: effect.splits)

lemma nbf_free:
  assumes "\<And>T s0. inv (trace_ext T s0) m"
  shows "inv (no_build_failure t) m"
  unfolding no_build_failure_def by (rule assms)

lemma check_system_requirements_nbf:
  "inv (no_build_failure t) (check_system_requirements w self)"
  by (rule nbf_step[OF check_system_requirements_trace]) (rule not_build_failed(1))

lemma clone_or_download_repo_nbf:
  "inv (no_build_failure t) (clone_or_download_repo w self r z d n)"
  by (rule nbf_step[OF clone_or_download_repo_trace]) (rule not_build_failed(2))

lemmas nbf =
  nbf_free[OF update_progress_trace]
  nbf_free[OF log_trace]
  nbf_free[OF setup_directories_trace]
  nbf_free[OF setup_environment_trace]
  nbf_free[OF create_launchers_trace]
  check_system_requirements_nbf
  clone_or_download_repo_nbf

lemma install_dependencies_went_on:
  assumes q: "quiet w self"
  shows "hoare (\<lambda>s. writable self s \<and> no_build_failure t s)
           (install_dependencies w self d ''Demo'')
           (\<lambda>_ s. writable self s \<and> (no_build_failure t s \<or> warned s))
           (\<lambda>_. no_build_failure t)"
proof (rule hoareI)
  fix s x s'
  assume pre: "writable self s \<and> no_build_failure t s"
    and run: "install_dependencies w self d ''Demo'' s = (Inr x, s')"
  from invD[OF install_dependencies_trace trace_ext_refl run]
  obtain ev where ev: "trace s' = trace s @ ev" by (auto simp: trace_ext_def)
  have w: "writable self s'"
    using invD[OF install_dependencies_writable[OF q] _ run] pre by simp
  show "writable self s' \<and> (no_build_failure t s' \<or> warned s')"
  proof (cases "\<exists>x \<in> set ev. build_failed x")
    case True
    then obtain cwd rc where "Subprocess [''npm'', ''run'', ''build''] cwd (Inr rc) \<in> set ev" "rc \<noteq> 0"
      by (auto simp: build_failed_def dest!: failed_exitD)
    from install_dependencies_build_failure[OF run ev q _ this] pre w show ?thesis
      by (simp add: warned_def)
  next
    case False
    with ev pre w show ?thesis
      by (auto simp: no_build_failure_def trace_ext_def list_all_iff)
  qed
next
  fix s e s'
  assume pre: "writable self s \<and> no_build_failure t s"
    and run: "install_dependencies w self d ''Demo'' s = (Inl e, s')"
  from invD[OF install_dependencies_trace trace_ext_refl run]
  obtain ev where ev: "trace s' = trace s @ ev" by (auto simp: trace_ext_def)
  have "\<not> (\<exists>x \<in> set ev. build_failed x)"
  proof
    assume "\<exists>x \<in> set ev. build_failed x"
    then obtain cwd rc where "Subprocess [''npm'', ''run'', ''build''] cwd (Inr rc) \<in> set ev" "rc \<noteq> 0"
      by (auto simp: build_failed_def dest!: failed_exitD)
    from install_dependencies_build_failure[OF run ev q _ this] pre show False by simp
  qed
  with ev pre show "no_build_failure t s'"
    by (auto simp: no_build_failure_def trace_ext_def list_all_iff)
qed

lemma inv_imp: "inv A m \<Longrightarrow> inv (\<lambda>s. P \<longrightarrow> A s) m"
  by (auto simp: inv_def)

lemma went_on_step:
  assumes "\<And>x. inv (\<lambda>s. x \<in> set (stdout s)) m" and "\<And>x. inv (\<lambda>s. x \<in> set (progress s)) m"
    and "inv (no_build_failure t) m"
  shows "inv (\<lambda>s. no_build_failure t s \<or> went_on self s) m"
  unfolding went_on_def
  by (intro inv_disj inv_conj inv_imp assms)

lemma install_steps_went_on:
  assumes d: "derived_paths self" and q: "quiet w self"
  shows "hoare (\<lambda>s. writable self s \<and> no_build_failure t s) (install_steps w self c)
           (\<lambda>_ s. no_build_failure t s \<or> went_on self s)
           (\<lambda>_ s. no_build_failure t s \<or> went_on self s)"
proof -
  note df = derived_facts[OF d]
  have pre: "hoare (\<lambda>s. writable self s \<and> no_build_failure t s) m
               (\<lambda>_ s. writable self s \<and> no_build_failure t s)
               (\<lambda>_ s. no_build_failure t s \<or> went_on self s)"
    if "inv (writable self) m" and "inv (no_build_failure t) m" for m :: "'a action"
    by (rule hoare_inv[OF inv_conj[OF that]]) simp
  have post: "hoare (\<lambda>s. no_build_failure t s \<or> went_on self s) m
               (\<lambda>_ s. no_build_failure t s \<or> went_on self s)
               (\<lambda>_ s. no_build_failure t s \<or> went_on self s)"
    if "\<And>x. inv (\<lambda>s. x \<in> set (stdout s)) m" and "\<And>x. inv (\<lambda>s. x \<in> set (progress s)) m"
      and "inv (no_build_failure t) m" for m :: "'a action"
    by (rule hoare_inv[OF went_on_step[OF that]]) simp
  have cw: "inv (writable self) (clone_or_download_repo w self r z (demo_dir self) n)"
    "inv (writable self) (clone_or_download_repo w self r z (core_dir self) n)" for r z n
    by (rule clone_or_download_repo_writable[OF q]; simp add: df)+
  note before =
    pre[OF update_progress_writable nbf(1)] pre[OF log_writable_log nbf(2)]
    pre[OF check_system_requirements_writable nbf(6)]
    pre[OF setup_directories_writable[OF d] nbf(3)]
    pre[OF cw(1) nbf(7)] pre[OF cw(2) nbf(7)]
  note after =
    post[OF update_progress_printed update_progress_emitted nbf(1)]
    post[OF log_printed log_emitted nbf(2)]
    post[OF create_launchers_printed create_launchers_emitted nbf(5)]
  have dep: "hoare (\<lambda>s. writable self s \<and> no_build_failure t s)
           (install_dependencies w self (demo_dir self) ''Demo'')
           (\<lambda>_ s. writable self s \<and> (no_build_failure t s \<or> warned s))
           (\<lambda>_ s. no_build_failure t s \<or> went_on self s)"
    by (rule hoare_conseq[OF install_dependencies_went_on[OF q, where t = t]]) blast+
  have p80: "hoare (\<lambda>s. writable self s \<and> (no_build_failure t s \<or> warned s))
           (update_progress self 80 ''Dependencies installed'')
           (\<lambda>_ s. no_build_failure t s \<or> warned80 self s)
           (\<lambda>_ s. no_build_failure t s \<or> went_on self s)"
    by (auto simp: hoare_def update_progress_def warned80_def warned_def no_build_failure_def
        trace_ext_def)
  have env: "hoare (\<lambda>s. no_build_failure t s \<or> warned80 self s) (setup_environment self)
           (\<lambda>_ s. no_build_failure t s \<or> went_on self s)
           (\<lambda>_ s. no_build_failure t s \<or> went_on self s)"
  proof -
    have i: "inv (\<lambda>s. no_build_failure t s \<or> warned80 self s) (setup_environment self)"
      unfolding warned80_def warned_def
      by (intro inv_disj inv_conj inv_imp nbf(4) setup_environment_printed
          setup_environment_emitted)
    have "no_build_failure t s' \<or> went_on self s'"
      if "no_build_failure t s \<or> warned80 self s" "setup_environment self s = (r, s')" for s r s'
      using invD[OF i that] setup_environment_announced[OF that(2)]
      by (auto simp: went_on_def warned80_def warned_def)
    then show ?thesis by (intro hoareI) blast+
  qed
  show ?thesis
    unfolding install_steps_def
    apply (rule hoare_andthen, rule before)
    apply (rule hoare_andthen, rule before)
    apply (rule hoare_if)
     apply (rule hoare_andthen, rule before, rule hoare_ret, simp)
    apply (rule hoare_andthen, rule before)
    apply (rule hoare_andthen, rule before)
    apply (rule hoare_andthen, rule before)
    apply (rule hoare_andthen, rule before)
    apply (rule hoare_andthen, rule before)
    apply (rule hoare_andthen[where R = "\<lambda>_ s. writable self s \<and> no_build_failure t s"])
     apply (rule hoare_if)
      apply (rule hoare_andthen, rule before)
      apply (rule before)
     apply (rule before)
    apply (rule hoare_andthen, rule dep)
    apply (rule hoare_andthen, rule p80)
    apply (rule hoare_andthen, rule env)
    apply (rule hoare_andthen, rule after)
    apply (rule hoare_andthen, rule after)
    apply (rule hoare_andthen, rule after)
    apply (rule hoare_andthen, rule after)
    apply (rule hoare_ret, assumption)
    done
qed

lemma install_went_on:
  assumes run: "install w self c t = (v, t')" and tr: "trace t' = trace t @ evs"
    and d: "derived_paths self" and q: "quiet w self" and wr: "log_writable self (fs t)"
    and f: "x \<in> set evs" "build_failed x"
  shows "went_on self t'"
proof -
  have 0: "writable self t \<and> no_build_failure t t"
    using wr by (simp add: no_build_failure_def trace_ext_refl)
  note h = install_steps_went_on[OF d q, of t c]
  have "no_build_failure t t' \<or> went_on self t'"
    using run
  proof (cases rule: install_cases)
    case (normal b)
    from hoareD_Inr[OF h 0 normal(1)] show ?thesis .
  next
    case (failed e s1)
    from hoareD_Inl[OF h 0 failed(1)] failed(2) show ?thesis
      using invD[OF went_on_step[OF log_printed log_emitted nbf(2)]] by blast
  next
    case (escaped e s1 e')
    from hoareD_Inl[OF h 0 escaped(1)] escaped(2) show ?thesis
      using invD[OF went_on_step[OF log_printed log_emitted nbf(2)]] by blast
  qed
  with tr f show ?thesis
    by (auto simp: no_build_failure_def trace_ext_def list_all_iff)
qed

subsection \<open>The core directory and the core repository\<close>

lemma move_folder_dir: "move (n, Folder es) d f = Inr f' \<Longrightarrow> f' d = Some Dir"
  by (auto simp: move_def graft_def in_parent_def split: option.splits node.splits if_splits)

lemma list_iterdir_unpacks:
  "unpacks_directory w \<Longrightarrow>
   hoare (\<lambda>s. True) (list_iterdir w)
     (\<lambda>xs s. case xs of (n, Leaf c) # rest \<Rightarrow> False | _ \<Rightarrow> True) (\<lambda>_ _. True)"
  by (auto simp: hoare_def list_iterdir_def Let_def unpacks_directory_def split: sum.splits)

lemma zip_fallback_makes_directory:
  assumes u: "unpacks_directory w"
  shows "hoare (\<lambda>s. fs s d = Some Dir) (zip_fallback w self z d n)
           (\<lambda>_ s. fs s d = Some Dir) (\<lambda>_ _. True)"
proof (rule hoareI)
  fix s x s'
  assume d: "fs s d = Some Dir" and run: "zip_fallback w self z d n s = (Inr x, s')"
  from run show "fs s' d = Some Dir"
    unfolding zip_fallback_def
  proof (elim andthen_InrE)
    fix x1 s1 x2 s2 x3 s3 xs s4
    assume 1: "log self (''Downloading '' @ n @ '' as ZIP...'') ''INFO'' s = (Inr x1, s1)"
      and 2: "download_file w self z (temp_dir w @ [n @ ''.zip'']) (n @ '' repository'') s1 = (Inr x2, s2)"
      and 3: "extract_zip w self (temp_dir w @ [n @ ''.zip'']) (temp_dir w @ [''extracted''])
                (n @ '' repository'') s2 = (Inr x3, s3)"
      and 4: "list_iterdir w s3 = (Inr xs, s4)"
      and 5: "(case xs of [] \<Rightarrow> ret ()
               | source_dir # rest \<Rightarrow>
                   andthen (reads (\<lambda>s. path_exists (fs s) d)) (\<lambda>present.
                   andthen (if present then fs_op (rmtree d) else ret ()) (\<lambda>_.
                   andthen (fs_op (move source_dir d)) (\<lambda>_.
                   log self (''Downloaded and extracted '' @ n) ''INFO'')))) s4 = (Inr x, s')"
    have i: "inv (\<lambda>s. fs s d = Some Dir) (download_file w self z p q)"
      "inv (\<lambda>s. fs s d = Some Dir) (extract_zip w self p p' q)" for p p' q
      unfolding download_file_def extract_zip_def
      by (intro inv_rules call_inv; (simp; fail)?; simp add: inv_def; metis log_keeps_dir prod.collapse)+
    have d1: "fs s1 d = Some Dir" using log_keeps_dir[OF 1 d] .
    have d2: "fs s2 d = Some Dir" using invD[OF i(1) d1 2] .
    have d3: "fs s3 d = Some Dir" using invD[OF i(2) d2 3] .
    have d4: "fs s4 d = Some Dir" using 4 d3 by (auto simp: list_iterdir_def Let_def)
    from hoareD_Inr[OF list_iterdir_unpacks[OF u] _ 4]
    have shape: "case xs of (n, Leaf c) # rest \<Rightarrow> False | _ \<Rightarrow> True" by simp
    show "fs s' d = Some Dir"
    proof (cases xs)
      case Nil
      with 5 d4 show ?thesis by (simp add: ret_def)
    next
      case (Cons src rest)
      with shape obtain nm es where src: "src = (nm, Folder es)"
        by (cases src; cases "snd src"; auto)
      from 5 Cons obtain s5 s6 y where
        m: "fs_op (move src d) s5 = (Inr y, s6)"
        and l: "log self (''Downloaded and extracted '' @ n) ''INFO'' s6 = (Inr x, s')"
        by (auto elim!: andthen_InrE)
      from m have "fs s6 d = Some Dir"
        unfolding src by (auto simp: fs_op_def split: sum.splits dest: move_folder_dir)
      with l show ?thesis by (rule log_keeps_dir)
    qed
  qed
qed simp

lemma vcs_attempt_has_core:
  "keeps_core w self \<Longrightarrow> inv (has_core self) (vcs_attempt w self r d n)"
  unfolding vcs_attempt_def
  by (intro inv_rules call_inv log_has_core run_checked_has_core)

lemma clone_or_download_repo_core:
  assumes k: "keeps_core w self" and u: "unpacks_directory w"
  shows "hoare (has_core self) (clone_or_download_repo w self r z (core_dir self) n)
           (\<lambda>_. has_core self) (\<lambda>_ _. True)"
  unfolding clone_or_download_repo_def
  apply (rule hoare_andthen, rule hoare_inv_top[OF check_command_has_core])
  apply (simp only: split_def)
  apply (rule hoare_andthen[where R = "\<lambda>_. has_core self"])
   apply (rule hoare_if)
    apply (rule hoare_inv_top[OF vcs_attempt_has_core[OF k]])
   apply (rule hoare_ret, assumption)
  apply (rule hoare_if)
   apply (rule hoare_ret, assumption)
  apply (rule zip_fallback_makes_directory[OF u])
  done

lemma install_steps_core:
  assumes d: "derived_paths self" and k: "keeps_core w self"
    and u: "c \<Longrightarrow> unpacks_directory w"
  shows "hoare (\<lambda>s. True) (install_steps w self c)
           (\<lambda>b s. b \<longrightarrow> has_core self s) (\<lambda>_ _. True)"
proof -
  have dc: "\<not> prefix (demo_dir self) (core_dir self)"
    using d by (auto simp: derived_paths_def)
  note step = hoare_inv_top[OF update_progress_has_core]
    hoare_inv_top[OF clone_or_download_repo_has_core[OF k dc]]
    hoare_inv_top[OF install_dependencies_has_core[OF k]]
    hoare_inv_top[OF setup_environment_has_core[OF d]]
    hoare_inv_top[OF create_launchers_has_core[OF d]]
    hoare_inv_top[OF log_has_core]
  show ?thesis
    unfolding install_steps_def
    apply (rule hoare_andthen, rule hoare_top)
    apply (rule hoare_andthen, rule hoare_top)
    apply (rule hoare_if)
     apply (rule hoare_andthen, rule hoare_top, rule hoare_ret, simp)
    apply (rule hoare_andthen, rule hoare_top)
    apply (rule hoare_andthen[where R = "\<lambda>_. has_core self"])
     apply (rule hoareI)
      apply (simp add: setup_directories_core)
     apply simp
    apply (rule hoare_andthen, rule step)
    apply (rule hoare_andthen, rule step)
    apply (rule hoare_andthen, rule step)
    apply (rule hoare_andthen[where R = "\<lambda>_. has_core self"])
     apply (rule hoare_if)
      apply (rule hoare_andthen, rule clone_or_download_repo_core[OF k u], assumption)
      apply (rule step)
     apply (rule step)
    apply (rule hoare_andthen, rule step)+
    apply (rule hoare_ret, simp)
    done
qed

lemma clone_or_download_repo_demo_only:
  assumes "derived_paths self"
  shows "inv (trace_ext (\<lambda>e. \<not> fetches_core self e) s0)
           (clone_or_download_repo w self demo_repo demo_zip (demo_dir self) n)"
proof -
  have "demo_dir self \<noteq> core_dir self"
    using assms by (auto simp: derived_paths_def)
  then show ?thesis
    unfolding clone_or_download_repo_def vcs_attempt_def zip_fallback_def download_file_def
      extract_zip_def
    by (intro inv_rules call_inv log_trace check_command_trace run_checked_trace trace_ext_snoc)
      (simp_all add: fetches_core_def demo_repo_def core_repo_def demo_zip_def core_zip_def)
qed

lemma install_without_core:
  assumes d: "derived_paths self"
  shows "inv (trace_ext (\<lambda>e. \<not> fetches_core self e) s0) (install w self False)"
proof -
  have q: "\<not> fetches_core self e" if "is_query e" for e
    using that by (auto simp: is_query_def fetches_core_def split: effect.splits)
  have n: "\<not> fetches_core self e" if "is_npm e" for e
    using that by (auto simp: is_npm_def fetches_core_def split: effect.splits)
  show ?thesis
    unfolding install_def install_steps_def if_False
    by (intro inv_rules update_progress_trace log_trace setup_directories_trace
        setup_environment_trace create_launchers_trace
        clone_or_download_repo_demo_only[OF d]
        inv_trace_mono[OF check_system_requirements_trace q]
        inv_trace_mono[OF install_dependencies_trace n])
qed

lemma core_fetched_ext: "core_fetched self s0 s \<Longrightarrow> trace_ext T s s' \<Longrightarrow> core_fetched self s0 s'"
  by (fastforce simp: core_fetched_def trace_ext_def)

lemma core_fetched_step:
  "(\<And>s1. inv (trace_ext T s1) m) \<Longrightarrow> inv (core_fetched self s0) m"
  by (rule inv_by_trace[OF _ core_fetched_ext])

lemma zip_fallback_returned:
  assumes "zip_fallback w self z d n s = (Inr x, s')"
  shows "retrieved z (trace s) s'"
proof -
  from assms obtain y s1 where "log self (''Downloading '' @ n @ '' as ZIP...'') ''INFO'' s = (Inr y, s1)"
    unfolding zip_fallback_def by (elim andthen_InrE)
  then have "log_ok self (fs s)"
    using log_ok_iff[of self "''Downloading '' @ n @ '' as ZIP...''" "''INFO''" s] by simp
  from hoareD_Inr[OF zip_fallback_retrieves[where self = self and t = "trace s"] _ assms] this
  show ?thesis by simp
qed

lemma clone_or_download_repo_fetches_core:
  assumes run: "clone_or_download_repo w self core_repo core_zip (core_dir self) n s = (Inr x, s')"
    and d: "derived_paths self"
  shows "core_fetched self s s'"
proof -
  from run obtain g v s1 returned s2 where
    p: "check_command w ''git'' s = (Inr (g, v), s1)"
    and a: "(if g then vcs_attempt w self core_repo (core_dir self) n else ret False) s1
              = (Inr returned, s2)"
    and z: "(if returned then ret () else zip_fallback w self core_zip (core_dir self) n) s2
              = (Inr x, s')"
    unfolding clone_or_download_repo_def by (auto elim!: andthen_InrE)
  have t1: "trace s1 = trace s @ [Version_probe ''git'' (version_probe w (trace s) ''git'')]"
    using check_command_state[OF p] by simp
  have lf: "log_file self \<noteq> core_dir self" "log_file self \<noteq> core_dir self @ [''.git'']"
    using d by (auto simp: derived_paths_def)
  show ?thesis
  proof (cases returned)
    case True
    with a have g and v: "vcs_attempt w self core_repo (core_dir self) n s1 = (Inr True, s2)"
      by (auto simp: ret_def split: if_splits)
    from vcs_attempt_trace[OF v lf] obtain res where
      "trace s2 = trace s1 @ [vcs_command (fs s1) core_repo (core_dir self) res]"
      by (auto split: if_splits)
    moreover have "fetches_core self (vcs_command (fs s1) core_repo (core_dir self) res)"
      by (simp add: vcs_command_def git_pull_def git_clone_def fetches_core_def)
    moreover from z True have "s' = s2" by (simp add: ret_def)
    ultimately show ?thesis
      using t1 by (auto simp: core_fetched_def)
  next
    case False
    with z have "zip_fallback w self core_zip (core_dir self) n s2 = (Inr x, s')" by simp
    from zip_fallback_returned[OF this] obtain ev calls failure where
      ev: "trace s' = trace s2 @ ev" "Urlretrieve core_zip calls failure \<in> set ev"
      by (auto simp: retrieved_def)
    have "trace_ext (\<lambda>_. True) s1 s2"
    proof (cases g)
      case True
      with a have "vcs_attempt w self core_repo (core_dir self) n s1 = (Inr returned, s2)" by simp
      from vcs_attempt_trace[OF this lf] show ?thesis
        by (auto simp: trace_ext_def split: if_splits)
    next
      case False
      with a show ?thesis by (simp add: ret_def trace_ext_refl)
    qed
    then obtain ev2 where "trace s2 = trace s1 @ ev2" by (auto simp: trace_ext_def)
    moreover have "fetches_core self (Urlretrieve core_zip calls failure)"
      by (simp add: fetches_core_def)
    ultimately show ?thesis
      using t1 ev by (fastforce simp: core_fetched_def)
  qed
qed

lemma install_steps_fetches_core:
  assumes d: "derived_paths self"
  shows "hoare (\<lambda>s. trace_ext (\<lambda>_. True) s0 s) (install_steps w self True)
           (\<lambda>b s. b \<longrightarrow> core_fetched self s0 s) (\<lambda>_ _. True)"
proof -
  note tr = update_progress_trace log_trace setup_directories_trace setup_environment_trace
    create_launchers_trace
    inv_trace_mono[OF check_system_requirements_trace, of "\<lambda>_. True"]
    inv_trace_mono[OF clone_or_download_repo_trace, of "\<lambda>_. True"]
    inv_trace_mono[OF install_dependencies_trace, of "\<lambda>_. True"]
  have before: "hoare (\<lambda>s. trace_ext (\<lambda>_. True) s0 s) m (\<lambda>_ s. trace_ext (\<lambda>_. True) s0 s) (\<lambda>_ _. True)"
    if "inv (trace_ext (\<lambda>_. True) s0) m" for m :: "'a action"
    by (rule hoare_inv_top[OF that])
  have after: "hoare (core_fetched self s0) m (\<lambda>_. core_fetched self s0) (\<lambda>_ _. True)"
    if "\<And>s1. inv (trace_ext (\<lambda>_. True) s1) m" for m :: "'a action"
    by (rule hoare_inv_top[OF core_fetched_step[OF that]])
  have core: "hoare (\<lambda>s. trace_ext (\<lambda>_. True) s0 s)
      (clone_or_download_repo w self core_repo core_zip (core_dir self) ''Core'')
      (\<lambda>_. core_fetched self s0) (\<lambda>_ _. True)"
  proof (rule hoareI)
    fix s x s'
    assume "trace_ext (\<lambda>_. True) s0 s"
      and "clone_or_download_repo w self core_repo core_zip (core_dir self) ''Core'' s = (Inr x, s')"
    with clone_or_download_repo_fetches_core[OF _ d] show "core_fetched self s0 s'"
      by (fastforce simp: core_fetched_def trace_ext_def)
  qed simp
  show ?thesis
    unfolding install_steps_def if_True
    apply (rule hoare_andthen, rule before, rule tr)
    apply (rule hoare_andthen, rule before, rule tr, simp)
    apply (rule hoare_if)
     apply (rule hoare_andthen, rule hoare_top, rule hoare_ret, simp)
    apply (rule hoare_andthen, rule before, rule tr)
    apply (rule hoare_andthen, rule before, rule tr)
    apply (rule hoare_andthen, rule before, rule tr)
    apply (rule hoare_andthen, rule before, rule tr, simp)
    apply (rule hoare_andthen, rule before, rule tr)
    apply (rule hoare_andthen[where R = "\<lambda>_. core_fetched self s0"])
     apply (rule hoare_andthen, rule core)
     apply (rule after, rule tr)
    apply (rule hoare_andthen, rule after, rule tr, simp)
    apply (rule hoare_andthen, rule after, rule tr)
    apply (rule hoare_andthen, rule after, rule tr)
    apply (rule hoare_andthen, rule after, rule tr)
    apply (rule hoare_andthen, rule after, rule tr)
    apply (rule hoare_andthen, rule after, rule tr)
    apply (rule hoare_andthen, rule after, rule tr)
    apply (rule hoare_ret, simp)
    done
qed

subsection \<open>The example machines\<close>

lemma gui_paths:
  "derived_paths gui" "trace fresh = []" "trace revisited = []" "trace cloned = []"
  "log_file gui \<noteq> demo_dir gui" "log_file gui \<noteq> demo_dir gui @ [''.git'']"
  by (simp_all add: derived_paths_def gui_def new_installer_def fresh_def revisited_def cloned_def)

lemma gui_writable:
  "log_writable gui (fs fresh)" "log_writable gui (fs revisited)" "log_writable gui (fs cloned)"
  by code_simp+

lemma quiet_examples:
  "quiet host gui" "quiet with_git gui" "quiet git_fails gui" "quiet no_network gui"
  "quiet npm_install_fails gui" "quiet npm_build_fails gui"
  by (simp_all add: quiet_def host_def with_git_def git_fails_def no_network_def
      npm_install_fails_def npm_build_fails_def)

section \<open>The claims\<close>

subsection \<open>C1: the progress values of a run\<close>

text \<open>
  C1 states that the percentages passed to the progress callback during a run are
  non-decreasing and drawn from the checkpoints 0, 10, 20, 40, 60, 80, 90, 100, and that
  a successful run ends with 100. The first part fails when an archive is downloaded:
  the report hook of \<open>download_file\<close> passes the download percentage to the same
  callback. On \<open>host\<close>, which has no \<open>git\<close>, the callback receives 0, 50 and 100
  between the checkpoints 20 and 40.
\<close>

theorem install_progress_not_monotone:
  "fst (install host gui False fresh) = Inr True \<and>
   map fst (progress (snd (install host gui False fresh)))
     = [0, 10, 20, 0, 50, 100, 40, 60, 80, 90, 100] \<and>
   \<not> sorted (map fst (progress (snd (install host gui False fresh))))"
proof -
  have v: "map fst (progress (snd (install host gui False fresh)))
      = [0, 10, 20, 0, 50, 100, 40, 60, 80, 90, 100]"
    by code_simp
  have r: "fst (install host gui False fresh) = Inr True"
    by code_simp
  show ?thesis
    unfolding v using r by simp
qed

text \<open>
  C1 as amended: the events that are not download reports are, in order, an initial
  segment of the eight checkpoints of \<open>install\<close> (so their values are non-decreasing);
  every download report carries a value of at most 100; and when the run returns true
  and a progress callback is set, the last event of the run is the checkpoint 100.
\<close>

theorem install_progress_checkpoints:
  assumes "install w self install_core s = (r, s')"
  shows "\<exists>pv. progress s' = progress s @ pv \<and>
           prefix (filter (\<lambda>e. \<not> download_report e) pv) (checkpoints install_core) \<and>
           sorted (map fst (filter (\<lambda>e. \<not> download_report e) pv)) \<and>
           (\<forall>e \<in> set pv. download_report e \<longrightarrow> fst e \<le> 100) \<and>
           (r = Inr True \<longrightarrow> progress_callback self \<longrightarrow>
              pv \<noteq> [] \<and> last pv = (100, ''Installation completed''))"
proof -
  from install_progress_stage(1)[OF assms]
  obtain cs pv where cs: "prefix cs (checkpoints install_core)"
    and pv: "progress s' = progress s @ pv"
      "list_all (\<lambda>e. fst e \<le> 100) (filter download_report pv)"
      "filter (\<lambda>e. \<not> download_report e) pv = (if progress_callback self then cs else [])"
    by (auto simp: some_stage_def stage_def)
  have 1: "prefix (filter (\<lambda>e. \<not> download_report e) pv) (checkpoints install_core)"
    using cs pv(3) by simp
  have 2: "\<forall>e \<in> set pv. download_report e \<longrightarrow> fst e \<le> 100"
    using pv(2) by (auto simp: list_all_iff)
  have 3: "pv \<noteq> [] \<and> last pv = (100, ''Installation completed'')"
    if t: "r = Inr True" and cb: "progress_callback self"
  proof -
    from install_progress_stage(2)[OF assms t]
    have "stage self (checkpoints install_core) s s'" and c: "completed self s'" by simp_all
    then obtain pv' where pv': "progress s' = progress s @ pv'"
      "filter (\<lambda>e. \<not> download_report e) pv' = checkpoints install_core"
      using cb by (auto simp: stage_def)
    with pv(1) have "pv' = pv" by simp
    with pv'(2) have "pv \<noteq> []" by (auto simp: checkpoints_def)
    with c pv(1) cb show ?thesis by (simp add: completed_def)
  qed
  from pv(1) 1 2 3 sorted_checkpoints[OF 1] show ?thesis by blast
qed

theorem install_progress_checkpoints_witness:
  "fst (install host gui False fresh) = Inr True \<and>
   (\<exists>pv. progress (snd (install host gui False fresh)) = progress fresh @ pv \<and>
      prefix (filter (\<lambda>e. \<not> download_report e) pv) (checkpoints False) \<and>
      sorted (map fst (filter (\<lambda>e. \<not> download_report e) pv)) \<and>
      pv \<noteq> [] \<and> last pv = (100, ''Installation completed''))"
proof -
  have r: "fst (install host gui False fresh) = Inr True"
    by code_simp
  have run: "install host gui False fresh = (Inr True, snd (install host gui False fresh))"
    using r by (metis prod.collapse)
  have cb: "progress_callback gui"
    by (simp add: gui_def)
  from install_progress_checkpoints[OF run] cb r show ?thesis
    by auto
qed

subsection \<open>C2: which acquisition strategy is chosen\<close>

text \<open>
  C2: a call of \<open>clone_or_download_repo\<close> first asks for the version of \<open>git\<close>. When
  \<open>git\<close> is available and the destination holds a working copy, the only command of the
  call is \<open>git pull origin main\<close> in the destination, never a clone; when \<open>git\<close> is
  available and there is no working copy, the only command is \<open>git clone\<close> of the
  repository into the destination, never a pull. In both cases the command is run
  whenever the record that announces it can be logged. When \<open>git\<close> is not available
  the call runs no command at all, it announces the archive download, and it asks for
  the archive whenever that announcement can be logged. The log file is taken to be
  neither the destination nor its \<open>.git\<close> entry.
\<close>

theorem acquisition_chooses_version_control:
  assumes run: "clone_or_download_repo w self repo_url zip_url destination name s = (r, s')"
    and probe: "check_command w ''git'' s = (Inr (git_available, v), s1)"
    and lf: "log_file self \<noteq> destination" "log_file self \<noteq> destination @ [''.git'']"
  shows "\<exists>ev. trace s' = trace s @ Version_probe ''git'' (version_probe w (trace s) ''git'') # ev \<and>
    (git_available \<and> working_copy (fs s) destination \<longrightarrow>
       (\<forall>e \<in> set ev. is_subprocess e \<longrightarrow> (\<exists>res. e = git_pull destination res)) \<and>
       (log_ok self (fs s) \<longrightarrow> (\<exists>res. git_pull destination res \<in> set ev))) \<and>
    (git_available \<and> \<not> working_copy (fs s) destination \<longrightarrow>
       (\<forall>e \<in> set ev. is_subprocess e \<longrightarrow> (\<exists>res. e = git_clone repo_url destination res)) \<and>
       (log_ok self (fs s) \<longrightarrow> (\<exists>res. git_clone repo_url destination res \<in> set ev))) \<and>
    (\<not> git_available \<longrightarrow>
       (\<forall>e \<in> set ev. \<not> is_subprocess e) \<and>
       entry ''INFO'' (''Downloading '' @ name @ '' as ZIP...'') \<in> set (stdout s') \<and>
       (log_ok self (fs s) \<longrightarrow> (\<exists>calls failure. Urlretrieve zip_url calls failure \<in> set ev)))"
proof -
  let ?p = "Version_probe ''git'' (version_probe w (trace s) ''git'')"
  have s1: "s1 = s\<lparr>trace := trace s @ [?p]\<rparr>"
    using probe by (rule check_command_state)
  then have fs1: "fs s1 = fs s" and tr1: "trace s1 = trace s @ [?p]" by simp_all
  show ?thesis
  proof (cases git_available)
    case False
    with run probe have z: "zip_fallback w self zip_url destination name s1 = (r, s')"
      by (simp add: clone_or_download_repo_def andthen_def ret_def)
    from invD[OF zip_fallback_trace trace_ext_refl z]
    obtain ev where ev: "trace s' = trace s1 @ ev" "list_all (\<lambda>e. \<not> is_subprocess e) ev"
      by (auto simp: trace_ext_def)
    have r: "\<exists>calls failure. Urlretrieve zip_url calls failure \<in> set ev" if "log_ok self (fs s)"
    proof -
      from hoareD_Inr[OF zip_fallback_retrieves, of self s1 "trace s1"]
        hoareD_Inl[OF zip_fallback_retrieves, of self s1 "trace s1"] z that fs1
      have "retrieved zip_url (trace s1) s'"
        by (cases r) auto
      with ev(1) show ?thesis by (auto simp: retrieved_def)
    qed
    from ev r zip_fallback_announced[OF z] False tr1 show ?thesis
      by (auto simp: list_all_iff)
  next
    case True
    with run probe obtain r2 s2 where
      v: "vcs_attempt w self repo_url destination name s1 = (r2, s2)"
      and rest: "(case r2 of Inl e \<Rightarrow> (Inl e, s2)
                  | Inr returned \<Rightarrow> (if returned then ret ()
                      else zip_fallback w self zip_url destination name) s2) = (r, s')"
      by (auto simp: clone_or_download_repo_def andthen_def split: prod.splits sum.splits)
    from rest have "trace_ext (\<lambda>e. \<not> is_subprocess e) s2 s'"
      using invD[OF zip_fallback_trace trace_ext_refl]
      by (auto simp: ret_def trace_ext_refl split: sum.splits if_splits)
    then obtain ev2 where ev2: "trace s' = trace s2 @ ev2" "list_all (\<lambda>e. \<not> is_subprocess e) ev2"
      by (auto simp: trace_ext_def)
    from vcs_attempt_trace[OF v lf] fs1
    have t2: "if log_ok self (fs s)
         then \<exists>res. trace s2 = trace s1 @ [vcs_command (fs s) repo_url destination res]
         else trace s2 = trace s1"
      by (auto split: if_splits)
    show ?thesis
    proof (cases "log_ok self (fs s)")
      case ok: True
      with t2 obtain res where "trace s2 = trace s1 @ [vcs_command (fs s) repo_url destination res]"
        by auto
      with ev2 tr1 True ok show ?thesis
        by (auto simp: list_all_iff vcs_command_def is_subprocess_def git_pull_def git_clone_def)
    next
      case nok: False
      with t2 have "trace s2 = trace s1" by simp
      with ev2 tr1 True nok show ?thesis
        by (auto simp: list_all_iff)
    qed
  qed
qed

text \<open>
  The three cases on concrete machines: a pull where an earlier run left a clone, a clone
  where it did not, and the archive on the host without \<open>git\<close>.
\<close>

theorem acquisition_chooses_version_control_witness:
  "(\<exists>res. git_pull (demo_dir gui) res \<in> set (trace (snd
      (clone_or_download_repo with_git gui demo_repo demo_zip (demo_dir gui) ''Demo'' cloned)))) \<and>
   (\<exists>res. git_clone demo_repo (demo_dir gui) res \<in> set (trace (snd
      (clone_or_download_repo with_git gui demo_repo demo_zip (demo_dir gui) ''Demo'' revisited)))) \<and>
   (\<exists>calls failure. Urlretrieve demo_zip calls failure \<in> set (trace (snd
      (clone_or_download_repo host gui demo_repo demo_zip (demo_dir gui) ''Demo'' revisited)))) \<and>
   entry ''INFO'' ''Downloading Demo as ZIP...'' \<in> set (stdout (snd
      (clone_or_download_repo host gui demo_repo demo_zip (demo_dir gui) ''Demo'' revisited)))"
proof -
  have p1: "check_command with_git ''git'' cloned
      = (Inr (True, ''v20''), snd (check_command with_git ''git'' cloned))"
    and p2: "check_command with_git ''git'' revisited
      = (Inr (True, ''v20''), snd (check_command with_git ''git'' revisited))"
    and p3: "check_command host ''git'' revisited
      = (Inr (False, ''''), snd (check_command host ''git'' revisited))"
    by (rule prod_eqI; simp; code_simp)+
  have wc: "working_copy (fs cloned) (demo_dir gui)" "\<not> working_copy (fs revisited) (demo_dir gui)"
    by code_simp+
  have ok: "log_ok gui (fs cloned)" "log_ok gui (fs revisited)"
    by code_simp+
  note t = acquisition_chooses_version_control[OF surjective_pairing _ gui_paths(5,6),
      where repo_url = demo_repo and zip_url = demo_zip and name = "''Demo''"]
  from t[OF p1] wc ok
  have 1: "\<exists>res. git_pull (demo_dir gui) res \<in> set (trace (snd
      (clone_or_download_repo with_git gui demo_repo demo_zip (demo_dir gui) ''Demo'' cloned)))"
    by auto
  from t[OF p2] wc ok
  have 2: "\<exists>res. git_clone demo_repo (demo_dir gui) res \<in> set (trace (snd
      (clone_or_download_repo with_git gui demo_repo demo_zip (demo_dir gui) ''Demo'' revisited)))"
    by auto
  let ?s = "snd (clone_or_download_repo host gui demo_repo demo_zip (demo_dir gui) ''Demo'' revisited)"
  from t[OF p3] ok obtain ev calls failure
    where e: "trace ?s = trace revisited @ Version_probe ''git'' (version_probe host (trace revisited) ''git'') # ev"
      "Urlretrieve demo_zip calls failure \<in> set ev"
      "entry ''INFO'' ''Downloading Demo as ZIP...'' \<in> set (stdout ?s)"
    by auto
  from e(1,2) have "Urlretrieve demo_zip calls failure \<in> set (trace ?s)"
    by simp
  with e(3) have 3: "(\<exists>calls failure. Urlretrieve demo_zip calls failure \<in> set (trace ?s)) \<and>
      entry ''INFO'' ''Downloading Demo as ZIP...'' \<in> set (stdout ?s)"
    by blast
  from 1 2 3 show ?thesis by blast
qed

subsection \<open>C3: failures of the acquisition step\<close>

text \<open>
  C3: where the log file stays writable, a \<open>git\<close> command of \<open>clone_or_download_repo\<close>
  that exits non-zero is logged as a WARNING and the call goes on to ask for the
  archive. A download or an extraction that raises makes the call raise the same
  exception, and an installation run in whose trace this happens returns false.
\<close>

theorem acquisition_failure_handling:
  assumes q: "quiet w self"
    and acq: "clone_or_download_repo w self repo_url zip_url destination name s = (r, s')"
      "trace s' = trace s @ ev"
    and ins: "install w self install_core t = (v, t')" "trace t' = trace t @ evs"
      "derived_paths self" "log_writable self (fs t)"
  shows "(log_writable self (fs s) \<longrightarrow>
            (\<forall>args cwd rc. Subprocess args cwd (Inr rc) \<in> set ev \<longrightarrow> rc \<noteq> 0 \<longrightarrow>
               entry ''WARNING'' (''Git clone failed: '' @ str_exc w (CalledProcessError args rc))
                 \<in> set (stdout s') \<and>
               (\<exists>calls failure. Urlretrieve zip_url calls failure \<in> set ev))) \<and>
         (\<forall>e x. x \<in> set ev \<longrightarrow> fatal_with e x \<longrightarrow> r = Inl e) \<and>
         (\<forall>e x. x \<in> set evs \<longrightarrow> fatal_with e x \<longrightarrow> v = Inr False)"
proof (intro conjI impI allI)
  fix args cwd rc
  assume "log_writable self (fs s)" "Subprocess args cwd (Inr rc) \<in> set ev" "rc \<noteq> 0"
  from acquisition_vcs_failure[OF acq q this]
  show "entry ''WARNING'' (''Git clone failed: '' @ str_exc w (CalledProcessError args rc))
                 \<in> set (stdout s')"
    and "\<exists>calls failure. Urlretrieve zip_url calls failure \<in> set ev"
    by simp_all
next
  fix e x assume "x \<in> set ev" "fatal_with e x"
  with clone_or_download_repo_fatal[OF acq(1)] acq(2) show "r = Inl e"
    by (auto simp: trace_ext_def list_all_iff)
next
  fix e x assume "x \<in> set evs" "fatal_with e x"
  then have "fatal x" by (auto simp: fatal_def)
  from install_fatal_false[OF ins(1,2,3) q ins(4) \<open>x \<in> set evs\<close> this]
  show "v = Inr False" .
qed

text \<open>
  On the host whose \<open>git\<close> exits 128 the warning is printed and the archive is fetched;
  without a network the acquisition raises and the run returns false.
\<close>

theorem acquisition_failure_handling_witness:
  "entry ''WARNING'' (''Git clone failed: '' @ str_exc git_fails
       (CalledProcessError [''git'', ''clone'', demo_repo, path_str (demo_dir gui)] 128))
     \<in> set (stdout (snd
       (clone_or_download_repo git_fails gui demo_repo demo_zip (demo_dir gui) ''Demo'' revisited))) \<and>
   (\<exists>calls failure. Urlretrieve demo_zip calls failure \<in> set (trace (snd
       (clone_or_download_repo git_fails gui demo_repo demo_zip (demo_dir gui) ''Demo'' revisited)))) \<and>
   fst (clone_or_download_repo no_network gui demo_repo demo_zip (demo_dir gui) ''Demo'' revisited)
     = Inl (OtherError ''URLError'') \<and>
   fst (install no_network gui False fresh) = Inr False"
proof -
  let ?a = "clone_or_download_repo git_fails gui demo_repo demo_zip (demo_dir gui) ''Demo'' revisited"
  let ?b = "clone_or_download_repo no_network gui demo_repo demo_zip (demo_dir gui) ''Demo'' revisited"
  have ta: "trace (snd ?a) = trace revisited @ trace (snd ?a)"
    and tb: "trace (snd ?b) = trace revisited @ trace (snd ?b)"
    and ti: "trace (snd (install git_fails gui False fresh))
               = trace fresh @ trace (snd (install git_fails gui False fresh))"
    and tj: "trace (snd (install no_network gui False fresh))
               = trace fresh @ trace (snd (install no_network gui False fresh))"
    by (simp_all add: gui_paths)
  have clone: "Subprocess [''git'', ''clone'', demo_repo, path_str (demo_dir gui)] None (Inr 128)
      \<in> set (trace (snd ?a))"
    by code_simp
  have down: "Urlretrieve demo_zip [] (Some (OtherError ''URLError'')) \<in> set (trace (snd ?b))"
    and down': "Urlretrieve demo_zip [] (Some (OtherError ''URLError''))
      \<in> set (trace (snd (install no_network gui False fresh)))"
    by code_simp+
  have f: "fatal_with (OtherError ''URLError'') (Urlretrieve demo_zip [] (Some (OtherError ''URLError'')))"
    by (simp add: fatal_with_def)
  note a = acquisition_failure_handling[OF quiet_examples(3) surjective_pairing ta
      surjective_pairing ti gui_paths(1) gui_writable(1)]
  note b = acquisition_failure_handling[OF quiet_examples(4) surjective_pairing tb
      surjective_pairing tj gui_paths(1) gui_writable(1)]
  from a clone gui_writable(2)
  have 1: "entry ''WARNING'' (''Git clone failed: '' @ str_exc git_fails
       (CalledProcessError [''git'', ''clone'', demo_repo, path_str (demo_dir gui)] 128))
     \<in> set (stdout (snd ?a)) \<and>
     (\<exists>calls failure. Urlretrieve demo_zip calls failure \<in> set (trace (snd ?a)))"
    by fastforce
  from b down f have 2: "fst ?b = Inl (OtherError ''URLError'')"
    by blast
  from b down' f have 3: "fst (install no_network gui False fresh) = Inr False"
    by blast
  from 1 2 3 show ?thesis by blast
qed

subsection \<open>C4: the requirement check passes iff the tally is zero\<close>

text \<open>
  C4: whenever \<open>check_system_requirements\<close> returns, it returns true exactly when the
  error tally is zero, where the tally counts a missing \<open>node\<close>, a missing \<open>npm\<close>
  and an insufficient free disk space, and never counts \<open>git\<close> or \<open>docker\<close>.
\<close>

theorem requirements_pass_iff_no_errors:
  assumes "check_system_requirements w self s = (Inr passed, s')"
  shows "passed = (error_tally w (trace s) = 0)"
  using assms unfolding check_system_requirements_def
  by (auto elim!: andthen_InrE ret_InrE dest!: log_trace_eq check_command_InrD disk_block
      simp: error_tally_def Let_def split: if_splits prod.splits)

theorem requirements_pass_iff_no_errors_witness:
  "fst (check_system_requirements host gui fresh) = Inr True \<and>
   error_tally host (trace fresh) = 0 \<and>
   fst (check_system_requirements no_node gui fresh) = Inr False \<and>
   error_tally no_node (trace fresh) \<noteq> 0"
proof -
  have a: "fst (check_system_requirements host gui fresh) = Inr True"
    by code_simp
  have b: "fst (check_system_requirements no_node gui fresh) = Inr False"
    by code_simp
  from a have "check_system_requirements host gui fresh
      = (Inr True, snd (check_system_requirements host gui fresh))"
    by (metis prod.collapse)
  from requirements_pass_iff_no_errors[OF this]
  have 1: "error_tally host (trace fresh) = 0" by simp
  from b have "check_system_requirements no_node gui fresh
      = (Inr False, snd (check_system_requirements no_node gui fresh))"
    by (metis prod.collapse)
  from requirements_pass_iff_no_errors[OF this]
  have 2: "error_tally no_node (trace fresh) \<noteq> 0" by simp
  from a b 1 2 show ?thesis by simp
qed

subsection \<open>C5: a failed requirement check aborts the run before any step\<close>

text \<open>
  C5: when the requirement check of a run returns false, \<open>install\<close> returns false;
  no directory is created or removed and no path other than the log file changes (the
  filesystem is untouched when the installation root does not exist yet); the platform
  was only asked the prober's read-only questions, so no acquisition, dependency,
  configuration or launcher step ran; and the progress callback received the
  checkpoint 0 only.
\<close>

theorem failed_requirements_abort:
  assumes "check_system_requirements w self (starting self s) = (Inr False, s1)"
    and "install w self install_core s = (r, s')"
  shows "r = Inr False \<and>
         (\<forall>p. p \<noteq> log_file self \<longrightarrow> fs s' p = fs s p) \<and>
         (\<forall>p. (fs s' p = Some Dir) = (fs s p = Some Dir)) \<and>
         (fs s (parent (log_file self)) = None \<longrightarrow> fs s' = fs s) \<and>
         (\<exists>ev. trace s' = trace s @ ev \<and> list_all is_query ev) \<and>
         progress s' = progress s
           @ (if progress_callback self then [(0, ''Starting installation...'')] else [])"
proof -
  let ?s0 = "starting self s"
  have s0: "?s0 = (if progress_callback self
                   then s\<lparr>progress := progress s @ [(0, ''Starting installation...'')]\<rparr> else s)"
    by (simp add: starting_def update_progress_def)
  have ok: "log_ok self (fs s1)"
    using check_system_requirements_log_ok[OF assms(1)] .
  obtain s2 where l: "log self ''System requirements not met'' ''ERROR'' s1 = (Inr (), s2)"
    using ok log_ok_iff[of self "''System requirements not met''" "''ERROR''" s1]
    by (metis prod.collapse)
  have steps: "install_steps w self install_core s = (Inr False, s2)"
    using assms(1) l
    by (simp add: install_steps_def andthen_def update_progress_def starting_def ret_def)
  then have run: "install w self install_core s = (Inr False, s2)"
    by (simp add: install_def try_except_def)
  with assms(2) have r: "r = Inr False" and s': "s' = s2" by simp_all
  have lo0: "log_only self s ?s0" and tr0: "trace_ext is_query s ?s0"
    by (simp_all add: s0 log_only_refl trace_ext_refl)
  have lo1: "log_only self s s1"
    using invD[OF check_system_requirements_log_only lo0 assms(1)] .
  have lo2: "log_only self s s2"
    using invD[OF log_log_only lo1 l] .
  have tr1: "trace_ext is_query s s1"
    using invD[OF check_system_requirements_trace tr0 assms(1)] .
  have tr2: "trace_ext is_query s s2"
    using invD[OF log_trace tr1 l] .
  have "progress s1 = progress ?s0"
    using invD[OF check_system_requirements_progress_same refl assms(1)] .
  then have pr: "progress s2 = progress ?s0"
    using log_progress_eq[OF l] by simp
  show ?thesis
    using r lo2 tr2 pr unfolding s' by (auto simp: log_only_def trace_ext_def s0)
qed

theorem failed_requirements_abort_witness:
  "fst (install no_node gui True fresh) = Inr False \<and>
   fs (snd (install no_node gui True fresh)) = fs fresh \<and>
   progress (snd (install no_node gui True fresh)) = [(0, ''Starting installation...'')]"
proof -
  have "fst (check_system_requirements no_node gui (starting gui fresh)) = Inr False"
    by code_simp
  then have c: "check_system_requirements no_node gui (starting gui fresh)
      = (Inr False, snd (check_system_requirements no_node gui (starting gui fresh)))"
    by (metis prod.collapse)
  have i: "install no_node gui True fresh
      = (fst (install no_node gui True fresh), snd (install no_node gui True fresh))"
    by simp
  have absent: "fs fresh (parent (log_file gui)) = None"
    by (simp add: fresh_def gui_def new_installer_def parent_def)
  have cb: "progress_callback gui" "progress fresh = []"
    by (simp_all add: gui_def fresh_def)
  from failed_requirements_abort[OF c i] absent cb show ?thesis
    by simp
qed

subsection \<open>C6: failures of the dependency step\<close>

text \<open>
  C6: where the log file stays writable, a non-zero exit of \<open>npm install\<close> in
  \<open>install_dependencies\<close> is logged as an ERROR, the call raises the
  \<open>CalledProcessError\<close> without running the build, and an installation run in whose
  trace this happens returns false. A non-zero exit of \<open>npm run build\<close> is logged as a
  WARNING and the call returns; the run then reports the checkpoint 80 and goes on with
  the configuration step.
\<close>

theorem dependency_failure_handling:
  assumes q: "quiet w self"
    and dep: "install_dependencies w self directory name s = (r, s')" "trace s' = trace s @ ev"
      "log_writable self (fs s)"
    and ins: "install w self install_core t = (v, t')" "trace t' = trace t @ evs"
      "derived_paths self" "log_writable self (fs t)"
  shows "(\<forall>cwd rc. Subprocess [''npm'', ''install''] cwd (Inr rc) \<in> set ev \<longrightarrow> rc \<noteq> 0 \<longrightarrow>
            r = Inl (CalledProcessError [''npm'', ''install''] rc) \<and>
            entry ''ERROR'' (''Failed to install '' @ name @ '' dependencies: ''
              @ str_exc w (CalledProcessError [''npm'', ''install''] rc)) \<in> set (stdout s') \<and>
            (\<forall>c res. Subprocess [''npm'', ''run'', ''build''] c res \<notin> set ev)) \<and>
         (\<forall>cwd rc. Subprocess [''npm'', ''run'', ''build''] cwd (Inr rc) \<in> set ev \<longrightarrow> rc \<noteq> 0 \<longrightarrow>
            r = Inr () \<and>
            entry ''WARNING'' (name @ '' build failed (not critical)'') \<in> set (stdout s')) \<and>
         ((\<exists>x \<in> set evs. failed_exit [''npm'', ''install''] x) \<longrightarrow> v = Inr False) \<and>
         ((\<exists>x \<in> set evs. failed_exit [''npm'', ''run'', ''build''] x) \<longrightarrow>
            entry ''WARNING'' ''Demo build failed (not critical)'' \<in> set (stdout t') \<and>
            entry ''INFO'' ''Setting up environment...'' \<in> set (stdout t') \<and>
            (progress_callback self \<longrightarrow> (80, ''Dependencies installed'') \<in> set (progress t')))"
proof (intro conjI impI allI)
  fix cwd rc
  assume "Subprocess [''npm'', ''install''] cwd (Inr rc) \<in> set ev" "rc \<noteq> 0"
  from install_dependencies_install_failure[OF dep(1,2) q dep(3) this]
  show "r = Inl (CalledProcessError [''npm'', ''install''] rc)"
    and "entry ''ERROR'' (''Failed to install '' @ name @ '' dependencies: ''
              @ str_exc w (CalledProcessError [''npm'', ''install''] rc)) \<in> set (stdout s')"
    and "\<And>c res. Subprocess [''npm'', ''run'', ''build''] c res \<notin> set ev"
    by simp_all
next
  fix cwd rc
  assume "Subprocess [''npm'', ''run'', ''build''] cwd (Inr rc) \<in> set ev" "rc \<noteq> 0"
  from install_dependencies_build_failure[OF dep(1,2) q dep(3) this]
  show "r = Inr ()"
    and "entry ''WARNING'' (name @ '' build failed (not critical)'') \<in> set (stdout s')"
    by simp_all
next
  assume "\<exists>x \<in> set evs. failed_exit [''npm'', ''install''] x"
  then obtain x where "x \<in> set evs" "fatal x" by (auto simp: fatal_def)
  from install_fatal_false[OF ins(1,2,3) q ins(4) this] show "v = Inr False" .
next
  assume "\<exists>x \<in> set evs. failed_exit [''npm'', ''run'', ''build''] x"
  then obtain x where "x \<in> set evs" "build_failed x" by (auto simp: build_failed_def)
  from install_went_on[OF ins(1,2,3) q ins(4) this]
  show "entry ''WARNING'' ''Demo build failed (not critical)'' \<in> set (stdout t')"
    and "entry ''INFO'' ''Setting up environment...'' \<in> set (stdout t')"
    and "progress_callback self \<Longrightarrow> (80, ''Dependencies installed'') \<in> set (progress t')"
    by (simp_all add: went_on_def)
qed

text \<open>
  On the host whose \<open>npm install\<close> exits 1 the run returns false; on the host whose build
  exits 1 the run goes on.
\<close>

theorem dependency_failure_handling_witness:
  "fst (install_dependencies npm_install_fails gui (demo_dir gui) ''Demo'' revisited)
     = Inl (CalledProcessError [''npm'', ''install''] 1) \<and>
   entry ''ERROR'' (''Failed to install Demo dependencies: ''
       @ str_exc npm_install_fails (CalledProcessError [''npm'', ''install''] 1))
     \<in> set (stdout (snd (install_dependencies npm_install_fails gui (demo_dir gui) ''Demo'' revisited))) \<and>
   fst (install npm_install_fails gui False fresh) = Inr False \<and>
   fst (install_dependencies npm_build_fails gui (demo_dir gui) ''Demo'' revisited) = Inr () \<and>
   entry ''WARNING'' ''Demo build failed (not critical)''
     \<in> set (stdout (snd (install_dependencies npm_build_fails gui (demo_dir gui) ''Demo'' revisited))) \<and>
   entry ''INFO'' ''Setting up environment...''
     \<in> set (stdout (snd (install npm_build_fails gui False fresh))) \<and>
   (80, ''Dependencies installed'') \<in> set (progress (snd (install npm_build_fails gui False fresh))) \<and>
   fst (install npm_build_fails gui False fresh) = Inr True"
proof -
  let ?a = "install_dependencies npm_install_fails gui (demo_dir gui) ''Demo'' revisited"
  let ?b = "install_dependencies npm_build_fails gui (demo_dir gui) ''Demo'' revisited"
  let ?i = "install npm_install_fails gui False fresh"
  let ?j = "install npm_build_fails gui False fresh"
  have ta: "trace (snd ?a) = trace revisited @ trace (snd ?a)"
    and tb: "trace (snd ?b) = trace revisited @ trace (snd ?b)"
    and ti: "trace (snd ?i) = trace fresh @ trace (snd ?i)"
    and tj: "trace (snd ?j) = trace fresh @ trace (snd ?j)"
    by (simp_all add: gui_paths)
  have ea: "Subprocess [''npm'', ''install''] (Some (demo_dir gui)) (Inr 1) \<in> set (trace (snd ?a))"
    and ei: "Subprocess [''npm'', ''install''] (Some (demo_dir gui)) (Inr 1) \<in> set (trace (snd ?i))"
    and eb: "Subprocess [''npm'', ''run'', ''build''] (Some (demo_dir gui)) (Inr 1) \<in> set (trace (snd ?b))"
    and ej: "Subprocess [''npm'', ''run'', ''build''] (Some (demo_dir gui)) (Inr 1) \<in> set (trace (snd ?j))"
    by code_simp+
  have f: "failed_exit [''npm'', ''install''] (Subprocess [''npm'', ''install''] (Some (demo_dir gui)) (Inr 1))"
    "failed_exit [''npm'', ''run'', ''build'']
       (Subprocess [''npm'', ''run'', ''build''] (Some (demo_dir gui)) (Inr 1))"
    by (simp_all add: failed_exit_def)
  have cb: "progress_callback gui"
    by (simp add: gui_def)
  note a = dependency_failure_handling[OF quiet_examples(5) surjective_pairing ta gui_writable(2)
      surjective_pairing ti gui_paths(1) gui_writable(1)]
  note b = dependency_failure_handling[OF quiet_examples(6) surjective_pairing tb gui_writable(2)
      surjective_pairing tj gui_paths(1) gui_writable(1)]
  from a ea have 1: "fst ?a = Inl (CalledProcessError [''npm'', ''install''] 1) \<and>
      entry ''ERROR'' (''Failed to install Demo dependencies: ''
       @ str_exc npm_install_fails (CalledProcessError [''npm'', ''install''] 1)) \<in> set (stdout (snd ?a))"
    by fastforce
  from a ei f(1) have 2: "fst ?i = Inr False"
    by blast
  from b eb have 3: "fst ?b = Inr () \<and>
      entry ''WARNING'' ''Demo build failed (not critical)'' \<in> set (stdout (snd ?b))"
    by fastforce
  from b ej f(2) cb have 4: "entry ''INFO'' ''Setting up environment...'' \<in> set (stdout (snd ?j)) \<and>
      (80, ''Dependencies installed'') \<in> set (progress (snd ?j))"
    by blast
  have 5: "fst ?j = Inr True"
    by code_simp
  from 1 2 3 4 5 show ?thesis by blast
qed

subsection \<open>C7: the configurator never overwrites a live environment file\<close>

text \<open>
  C7, for an installer whose paths derive from its root: \<open>setup_environment\<close> changes
  no path but the live environment file and the log file it writes its own entries to;
  the live file changes only when it was missing and the template was a file, and then
  it receives the template's content; a live file that exists keeps its content; and
  without a template nothing but the log file changes and, the log file being writable,
  no exception is raised.
\<close>

theorem configurator_keeps_live_env:
  assumes "setup_environment self s = (r, s')" and "derived_paths self"
  shows "(\<forall>p. p \<noteq> log_file self \<and> p \<noteq> demo_dir self @ [''.env''] \<longrightarrow> fs s' p = fs s p) \<and>
         (fs s' (demo_dir self @ [''.env'']) \<noteq> fs s (demo_dir self @ [''.env'']) \<longrightarrow>
            fs s (demo_dir self @ [''.env'']) = None \<and>
            (\<exists>c. fs s (demo_dir self @ [''.env.example'']) = Some (File c) \<and>
                 fs s' (demo_dir self @ [''.env'']) = Some (File c))) \<and>
         (fs s (demo_dir self @ [''.env'']) \<noteq> None \<longrightarrow>
            fs s' (demo_dir self @ [''.env'']) = fs s (demo_dir self @ [''.env''])) \<and>
         (fs s (demo_dir self @ [''.env.example'']) = None \<longrightarrow>
            (\<forall>p. p \<noteq> log_file self \<longrightarrow> fs s' p = fs s p) \<and>
            (log_ok self (fs s) \<longrightarrow> r = Inr ()))"
proof -
  let ?live = "demo_dir self @ [''.env'']" and ?tpl = "demo_dir self @ [''.env.example'']"
  have ne: "?live \<noteq> log_file self" "?tpl \<noteq> log_file self"
    using assms(2) by (auto simp: derived_paths_def)
  from assms(1) show ?thesis
    unfolding setup_environment_def
  proof (cases rule: andthen_cases)
    case (raised e)
    from log_raises_fs[OF raised(1)] log_ok_iff[of self "''Setting up environment...''" "''INFO''" s]
      raised
    show ?thesis by auto
  next
    case (continued x s1)
    note l = log_fs_other[OF continued(1)]
    have live1: "fs s1 ?live = fs s ?live" and tpl1: "fs s1 ?tpl = fs s ?tpl"
      using l ne by simp_all
    show ?thesis
    proof (cases "path_exists (fs s1) ?tpl \<and> \<not> path_exists (fs s1) ?live")
      case False
      with continued(2) have "r = Inr ()" "s' = s1"
        by (auto simp: andthen_def reads_def ret_def)
      with l live1 tpl1 False show ?thesis
        by (auto simp: path_exists_def)
    next
      case True
      show ?thesis
      proof (cases "copy2 ?tpl ?live (fs s1)")
        case (Inl e)
        with continued(2) True have "fs s' = fs s1"
          by (auto simp: andthen_def reads_def fs_op_def)
        with l live1 tpl1 True show ?thesis
          by (auto simp: path_exists_def)
      next
        case (Inr f')
        from True obtain c where c: "fs s1 ?tpl = Some (File c)" and n: "fs s1 ?live = None"
          using Inr by (auto simp: path_exists_def copy2_def split: option.splits node.splits)
        from Inr c n have f': "f' = (fs s1)(?live \<mapsto> File c)"
          by (auto simp: copy2_def open_write_def in_parent_def split: option.splits node.splits)
        from continued(2) True Inr
        obtain r2 where "log self ''Environment file created'' ''INFO'' (s1\<lparr>fs := f'\<rparr>) = (r2, s')"
          by (auto simp: andthen_def reads_def fs_op_def split: prod.splits sum.splits)
        note l2 = log_fs_other[OF this]
        from l l2 f' c n live1 tpl1 ne show ?thesis
          by auto
      qed
    qed
  qed
qed

theorem configurator_keeps_live_env_witness:
  "fst (setup_environment gui configured) = Inr () \<and>
   fs configured (demo_dir gui @ [''.env'']) = Some (File ''PORT=8080'') \<and>
   fs (snd (setup_environment gui configured)) (demo_dir gui @ [''.env''])
     = Some (File ''PORT=8080'')"
proof -
  have r: "fst (setup_environment gui configured) = Inr ()"
    by code_simp
  have run: "setup_environment gui configured
      = (fst (setup_environment gui configured), snd (setup_environment gui configured))"
    by simp
  have d: "derived_paths gui"
    by (simp add: derived_paths_def gui_def new_installer_def)
  have live: "fs configured (demo_dir gui @ [''.env'']) = Some (File ''PORT=8080'')"
    by (simp add: configured_def fresh_def gui_def new_installer_def)
  from configurator_keeps_live_env[OF run d] live r show ?thesis
    by simp
qed

subsection \<open>C8: exceptions that reach the handler of \<open>install\<close>\<close>

text \<open>
  C8 states that every exception of a step is caught in \<open>install\<close>, logged as an ERROR
  and answered with false, never passed on to the caller. The handler itself calls
  \<open>log\<close>, which opens the log file whenever the installation root exists. Where the
  name of the root is taken by a regular file, the first \<open>log\<close> of the requirement
  check raises \<open>NotADirectoryError\<close>, the handler prints the ERROR record and raises the
  same exception again, and \<open>install\<close> ends with that exception instead of a result.
  (Where the log file stays writable, \<open>install\<close> does return a result: lemma
  \<open>install_returns\<close>.)
\<close>

theorem install_raises_when_root_is_a_file:
  "fst (install host gui False blocked)
     = Inl (NotADirectoryError [''home'', ''anarqq-ecosystem'', ''install.log'']) \<and>
   stdout (snd (install host gui False blocked))
     = [entry ''INFO'' ''Checking system requirements...'',
        entry ''ERROR'' (''Installation failed: '' @ str_exc host
          (NotADirectoryError [''home'', ''anarqq-ecosystem'', ''install.log'']))] \<and>
   trace (snd (install host gui False blocked)) = []"
proof -
  have "fst (install host gui False blocked)
     = Inl (NotADirectoryError [''home'', ''anarqq-ecosystem'', ''install.log''])"
    by code_simp
  moreover have "stdout (snd (install host gui False blocked))
     = [entry ''INFO'' ''Checking system requirements...'',
        entry ''ERROR'' (''Installation failed: '' @ str_exc host
          (NotADirectoryError [''home'', ''anarqq-ecosystem'', ''install.log'']))]"
    by code_simp
  moreover have "trace (snd (install host gui False blocked)) = []"
    by code_simp
  ultimately show ?thesis by simp
qed

subsection \<open>C9: the core directory\<close>

text \<open>
  C9 states that \<open><root>/core\<close> exists only when the core component was requested.
  \<open>setup_directories\<close> has no access to the flag and makes the three directories in
  every run: on \<open>host\<close> a successful run with \<open>install_core = False\<close> creates the
  core directory.
\<close>

theorem core_directory_without_request:
  "fst (install host gui False fresh) = Inr True \<and>
   fs fresh (core_dir gui) = None \<and>
   fs (snd (install host gui False fresh)) (core_dir gui) = Some Dir"
proof -
  have 1: "fst (install host gui False fresh) = Inr True"
    by code_simp
  have 2: "fs fresh (core_dir gui) = None"
    by code_simp
  have 3: "fs (snd (install host gui False fresh)) (core_dir gui) = Some Dir"
    by code_simp
  from 1 2 3 show ?thesis by simp
qed

text \<open>
  C9 as amended: whenever \<open>setup_directories\<close> returns, the core directory exists,
  whatever the flag. A run that returns true leaves \<open><root>/core\<close> a directory, with
  \<open>install_core\<close> false and with \<open>install_core\<close> true, provided the paths derive from the
  root, the external commands do not remove the directory and, when the core repository
  is requested, the first entry of an unpacked archive is a directory. What the flag
  decides is whether the core repository is fetched: a run with \<open>install_core\<close> false
  never downloads the core archive and never runs \<open>git clone\<close> or \<open>git pull\<close> for the
  core repository, and a run with \<open>install_core\<close> true that returns true has done one of
  these.
\<close>

theorem core_directory_created_regardless:
  "(setup_directories self s = (Inr (), a) \<longrightarrow> fs a (core_dir self) = Some Dir) \<and>
   (derived_paths self \<longrightarrow> keeps_core w self \<longrightarrow> (install_core \<longrightarrow> unpacks_directory w) \<longrightarrow>
      install w self install_core s = (Inr True, b) \<longrightarrow> fs b (core_dir self) = Some Dir) \<and>
   (derived_paths self \<longrightarrow> install w self False s = (r, t) \<longrightarrow>
      (\<exists>ev. trace t = trace s @ ev \<and> (\<forall>e \<in> set ev. \<not> fetches_core self e))) \<and>
   (derived_paths self \<longrightarrow> install w self True s = (Inr True, u) \<longrightarrow>
      (\<exists>ev. trace u = trace s @ ev \<and> (\<exists>e \<in> set ev. fetches_core self e)))"
proof (intro conjI impI)
  assume "setup_directories self s = (Inr (), a)"
  then show "fs a (core_dir self) = Some Dir" by (rule setup_directories_core)
next
  assume d: "derived_paths self" and k: "keeps_core w self"
    and u: "install_core \<longrightarrow> unpacks_directory w"
    and i: "install w self install_core s = (Inr True, b)"
  from i have "install_steps w self install_core s = (Inr True, b)"
    by (cases rule: install_cases) simp_all
  from hoareD_Inr[OF install_steps_core[OF d k] _ this] u
  show "fs b (core_dir self) = Some Dir" by simp
next
  assume d: "derived_paths self" and i: "install w self False s = (r, t)"
  from invD[OF install_without_core[OF d] trace_ext_refl i]
  show "\<exists>ev. trace t = trace s @ ev \<and> (\<forall>e \<in> set ev. \<not> fetches_core self e)"
    by (simp add: trace_ext_def list_all_iff)
next
  assume d: "derived_paths self" and i: "install w self True s = (Inr True, u)"
  from i have "install_steps w self True s = (Inr True, u)"
    by (cases rule: install_cases) simp_all
  from hoareD_Inr[OF install_steps_fetches_core[OF d] trace_ext_refl this]
  show "\<exists>ev. trace u = trace s @ ev \<and> (\<exists>e \<in> set ev. fetches_core self e)"
    by (simp add: core_fetched_def)
qed

text \<open>
  On \<open>host\<close>, which has no \<open>git\<close>, both runs succeed and leave the core directory; only
  the run with \<open>install_core\<close> true downloads the core archive.
\<close>

theorem core_directory_created_regardless_witness:
  "fst (setup_directories gui fresh) = Inr () \<and>
   fs (snd (setup_directories gui fresh)) (core_dir gui) = Some Dir \<and>
   fst (install host gui False fresh) = Inr True \<and>
   fs (snd (install host gui False fresh)) (core_dir gui) = Some Dir \<and>
   fst (install host gui True fresh) = Inr True \<and>
   fs (snd (install host gui True fresh)) (core_dir gui) = Some Dir \<and>
   \<not> (\<exists>e \<in> set (trace (snd (install host gui False fresh))). fetches_core gui e) \<and>
   (\<exists>e \<in> set (trace (snd (install host gui True fresh))). fetches_core gui e)"
proof -
  let ?a = "snd (setup_directories gui fresh)"
  let ?b = "snd (install host gui False fresh)"
  let ?c = "snd (install host gui True fresh)"
  have a: "fst (setup_directories gui fresh) = Inr ()"
    by code_simp
  then have sd: "setup_directories gui fresh = (Inr (), ?a)"
    by (metis prod.collapse)
  have b: "fst (install host gui False fresh) = Inr True"
    by code_simp
  then have i: "install host gui False fresh = (Inr True, ?b)"
    by (metis prod.collapse)
  have c: "fst (install host gui True fresh) = Inr True"
    by code_simp
  then have j: "install host gui True fresh = (Inr True, ?c)"
    by (metis prod.collapse)
  have d: "derived_paths gui"
    by (simp add: derived_paths_def gui_def new_installer_def)
  have k: "keeps_core host gui"
    by (simp add: keeps_core_def host_def)
  have un: "unpacks_directory host"
    by (simp add: unpacks_directory_def host_def demo_tree_def)
  have t: "trace fresh = []"
    by (simp add: fresh_def)
  from core_directory_created_regardless[of gui fresh ?a host False ?b "Inr True" ?b ?c] sd i j d k
  have 1: "fs ?a (core_dir gui) = Some Dir" "fs ?b (core_dir gui) = Some Dir"
    "\<exists>ev. trace ?b = trace fresh @ ev \<and> (\<forall>e \<in> set ev. \<not> fetches_core gui e)"
    "\<exists>ev. trace ?c = trace fresh @ ev \<and> (\<exists>e \<in> set ev. fetches_core gui e)"
    by simp_all
  from core_directory_created_regardless[of gui fresh ?a host True ?c "Inr True" ?b ?c] j d k un
  have 2: "fs ?c (core_dir gui) = Some Dir"
    by simp
  from 1(3,4) t have 3: "\<not> (\<exists>e \<in> set (trace ?b). fetches_core gui e)"
    "\<exists>e \<in> set (trace ?c). fetches_core gui e"
    by auto
  from a b c 1(1,2) 2 3 show ?thesis by simp
qed

subsection \<open>C10: which log records reach the log file\<close>

text \<open>
  C10 states that a record is appended to the log file only when the installation root
  exists at the time of logging, and that every record emitted before directory setup
  reaches standard output and the callback only. The second part holds on a machine
  without an installation root; where the root exists already, as on \<open>revisited\<close>,
  the records of the requirement check are appended to \<open>install.log\<close>, here those of
  a run that fails the check and never sets up a directory.
\<close>

theorem early_records_persisted_in_existing_root:
  "fst (install no_node gui False revisited) = Inr False \<and>
   fs revisited (log_file gui) = None \<and>
   fs (snd (install no_node gui False revisited)) (log_file gui)
     = Some (File (concat (map (\<lambda>l. l @ [CHR 0x0A])
         [''[INFO] Checking system requirements...'',
          ''[INFO] Python version: 3.11.4'',
          ''[ERROR] Node.js not found'',
          ''[INFO] npm found: 10.2'',
          ''[WARNING] Git not found (will use ZIP download)'',
          ''[INFO] Docker not found (optional)'',
          ''[INFO] Disk space: 8.0GB available'',
          ''[ERROR] System requirements not met''])))"
proof -
  have 1: "fst (install no_node gui False revisited) = Inr False"
    by code_simp
  have 2: "fs revisited (log_file gui) = None"
    by code_simp
  have 3: "fs (snd (install no_node gui False revisited)) (log_file gui)
     = Some (File (concat (map (\<lambda>l. l @ [CHR 0x0A])
         [''[INFO] Checking system requirements...'',
          ''[INFO] Python version: 3.11.4'',
          ''[ERROR] Node.js not found'',
          ''[INFO] npm found: 10.2'',
          ''[WARNING] Git not found (will use ZIP download)'',
          ''[INFO] Docker not found (optional)'',
          ''[INFO] Disk space: 8.0GB available'',
          ''[ERROR] System requirements not met''])))"
    by code_simp
  from 1 2 3 show ?thesis by simp
qed

text \<open>
  C10 as amended. A call of \<open>log\<close> changes the filesystem only when the parent of the
  log file is a directory, and then by appending the entry and a newline to the log
  file; where that parent is a directory and \<open>log\<close> returns, the entry is appended;
  where it is missing, \<open>log\<close> returns, leaves the filesystem alone and delivers the
  entry to standard output and to the callback, if one is set. So when a run starts
  without an installation root and fails the requirement check, its records, the final
  ERROR record included, are on standard output and the filesystem is as before.
\<close>

theorem log_persisted_iff_root_exists:
  assumes "log self message level s = (r, s')"
  shows "(fs s' \<noteq> fs s \<longrightarrow>
            fs s (parent (log_file self)) = Some Dir \<and>
            (\<exists>c. (fs s (log_file self) = Some (File c) \<or> fs s (log_file self) = None \<and> c = []) \<and>
                 fs s' = (fs s)(log_file self \<mapsto> File (c @ entry level message @ [CHR 0x0A])))) \<and>
         (fs s (parent (log_file self)) = Some Dir \<and> r = Inr () \<longrightarrow> fs s' \<noteq> fs s) \<and>
         (fs s (parent (log_file self)) = None \<longrightarrow>
            r = Inr () \<and> fs s' = fs s \<and> stdout s' = stdout s @ [entry level message] \<and>
            log_lines s' = log_lines s @ (if log_callback self then [entry level message] else [])) \<and>
         (\<forall>w install_core s1 r2 s2.
            fs s (parent (log_file self)) = None \<longrightarrow>
            check_system_requirements w self (starting self s) = (Inr False, s1) \<longrightarrow>
            install w self install_core s = (r2, s2) \<longrightarrow>
            fs s2 = fs s \<and> entry ''ERROR'' ''System requirements not met'' \<in> set (stdout s2))"
proof (intro conjI impI allI)
  assume "fs s' \<noteq> fs s"
  from log_appends[OF assms this]
  show "fs s (parent (log_file self)) = Some Dir"
    and "\<exists>c. (fs s (log_file self) = Some (File c) \<or> fs s (log_file self) = None \<and> c = []) \<and>
                 fs s' = (fs s)(log_file self \<mapsto> File (c @ entry level message @ [CHR 0x0A]))"
    by simp_all
next
  assume "fs s (parent (log_file self)) = Some Dir \<and> r = Inr ()"
  with assms show "fs s' \<noteq> fs s"
    by (auto simp: log_def Let_def open_append_def in_parent_def path_exists_def
      split: sum.splits if_splits option.splits node.splits dest: fun_cong[where x = "log_file self"])
next
  assume a: "fs s (parent (log_file self)) = None"
  from log_lines_absent[OF assms a] log_absent_fs[OF assms a] log_stdout_eq[OF assms]
  show "r = Inr ()" "fs s' = fs s" "stdout s' = stdout s @ [entry level message]"
    "log_lines s' = log_lines s @ (if log_callback self then [entry level message] else [])"
    by simp_all
next
  fix w install_core s1 r2 s2
  assume a: "fs s (parent (log_file self)) = None"
    and c: "check_system_requirements w self (starting self s) = (Inr False, s1)"
    and i: "install w self install_core s = (r2, s2)"
  from c obtain s2' where l: "log self ''System requirements not met'' ''ERROR'' s1 = (Inr (), s2')"
    and i': "install w self install_core s = (Inr False, s2')"
    by (rule failed_requirements_run)
  from i i' have [simp]: "s2' = s2" by simp
  have "log_only self s (starting self s)"
    by (simp add: starting_def update_progress_def log_only_refl)
  from invD[OF check_system_requirements_log_only this c]
  have "log_only self s s1" .
  from invD[OF log_log_only this l] a show "fs s2 = fs s"
    by (simp add: log_only_def)
  from log_stdout_eq[OF l] show "entry ''ERROR'' ''System requirements not met'' \<in> set (stdout s2)"
    by simp
qed

theorem log_persisted_iff_root_exists_witness:
  "fs (snd (log gui ''Checking system requirements...'' ''INFO'' fresh)) = fs fresh \<and>
   stdout (snd (log gui ''Checking system requirements...'' ''INFO'' fresh))
     = [entry ''INFO'' ''Checking system requirements...''] \<and>
   fs (snd (log gui ''Checking system requirements...'' ''INFO'' revisited)) \<noteq> fs revisited \<and>
   fs (snd (install no_node gui False fresh)) = fs fresh \<and>
   entry ''ERROR'' ''System requirements not met''
     \<in> set (stdout (snd (install no_node gui False fresh)))"
proof -
  let ?m = "''Checking system requirements...''"
  have l1: "log gui ?m ''INFO'' fresh
      = (fst (log gui ?m ''INFO'' fresh), snd (log gui ?m ''INFO'' fresh))"
    by simp
  have l2: "log gui ?m ''INFO'' revisited
      = (fst (log gui ?m ''INFO'' revisited), snd (log gui ?m ''INFO'' revisited))"
    by simp
  have absent: "fs fresh (parent (log_file gui)) = None"
    by (simp add: fresh_def gui_def new_installer_def parent_def)
  have present: "fs revisited (parent (log_file gui)) = Some Dir"
    by (simp add: revisited_def fresh_def gui_def new_installer_def parent_def)
  have r2: "fst (log gui ?m ''INFO'' revisited) = Inr ()"
    by code_simp
  have "fst (check_system_requirements no_node gui (starting gui fresh)) = Inr False"
    by code_simp
  then have c: "check_system_requirements no_node gui (starting gui fresh)
      = (Inr False, snd (check_system_requirements no_node gui (starting gui fresh)))"
    by (metis prod.collapse)
  have i: "install no_node gui False fresh
      = (fst (install no_node gui False fresh), snd (install no_node gui False fresh))"
    by simp
  have out: "stdout fresh = []"
    by (simp add: fresh_def)
  from log_persisted_iff_root_exists[OF l1] absent out
  have a: "fs (snd (log gui ?m ''INFO'' fresh)) = fs fresh"
    "stdout (snd (log gui ?m ''INFO'' fresh)) = [entry ''INFO'' ?m]"
    by simp_all
  from log_persisted_iff_root_exists[OF l1]
  have "\<forall>w install_core s1 r2 s2.
            fs fresh (parent (log_file gui)) = None \<longrightarrow>
            check_system_requirements w gui (starting gui fresh) = (Inr False, s1) \<longrightarrow>
            install w gui install_core fresh = (r2, s2) \<longrightarrow>
            fs s2 = fs fresh \<and> entry ''ERROR'' ''System requirements not met'' \<in> set (stdout s2)"
    by blast
  from this[rule_format, OF absent c i]
  have a': "fs (snd (install no_node gui False fresh)) = fs fresh"
    "entry ''ERROR'' ''System requirements not met''
       \<in> set (stdout (snd (install no_node gui False fresh)))"
    by simp_all
  from log_persisted_iff_root_exists[OF l2] present r2
  have b: "fs (snd (log gui ?m ''INFO'' revisited)) \<noteq> fs revisited"
    by blast
  from a a' b show ?thesis by simp
qed

end
